theory Spec2Isabelle
  imports Complex_Main
begin

section \<open>Data model (app/models/game.py, app/models/puzzle.py)\<close>

text \<open>
  Identifiers are Python integers. Timestamps (\<open>datetime.now()\<close>, the store's
  \<open>func.now()\<close>) are readings of a clock, passed to every operation as \<open>now\<close>.
  The JSON text columns \<open>GameSession.move_history\<close> and \<open>Puzzle.moves\<close> are modelled
  by what \<open>json.loads\<close> makes of them.
\<close>

datatype GameStatus = IN_PROGRESS | WHITE_WON | BLACK_WON | DRAW | ABANDONED

record Game =
  id_game :: int
  white_player_id :: "int option"
  black_player_id :: "int option"
  pgn :: "string option"
  status :: GameStatus
  ended_at :: "nat option"

record GameSession =
  id_session :: int
  game_id :: int
  current_fen :: string
  move_history :: "string list"
  last_move_at :: nat
  created_at :: nat

datatype PuzzleDifficulty = EASY | MEDIUM | HARD | EXPERT

record Puzzle =
  id_puzzle :: int
  puzzle_fen :: string
  moves :: "string list option"
  difficulty :: PuzzleDifficulty

record UserPuzzle =
  id_up :: int
  user_id :: int
  puzzle_id :: int
  solved :: int
  failed :: int
  best_time_seconds :: "rat option"
  last_attempted_at :: "nat option"

record db =
  games :: "Game list"
  sessions :: "GameSession list"
  puzzles :: "Puzzle list"
  user_puzzles :: "UserPuzzle list"

section \<open>The rules library and the engine, as the services use them\<close>

text \<open>
  The services call the python-chess package and a Stockfish process; neither is part of
  the repository. Their operations are a parameter of every service function:
  \<^item> \<open>Board_start\<close> is \<open>chess.Board()\<close>, \<open>Board_fen s\<close> is \<open>chess.Board(s)\<close>
    (\<open>None\<close> when it raises ValueError), \<open>fen b\<close> is \<open>b.fen()\<close>;
  \<^item> \<open>from_uci s\<close> is \<open>chess.Move.from_uci(s)\<close> (\<open>None\<close> when it raises ValueError),
    \<open>uci m\<close> is \<open>m.uci()\<close>;
  \<^item> \<open>is_legal b m\<close> is \<open>m in b.legal_moves\<close>; \<open>push b m\<close> is the board after
    \<open>b.push(m)\<close>, which does not check legality. It does assert that the move takes a
    piece from its square of departure, as every legal move does; \<open>push_raises b m\<close>
    says of a move that is not legal that this assertion fails (AssertionError);
  \<^item> \<open>turn b\<close> is \<open>b.turn\<close> (\<open>chess.WHITE\<close> is \<open>True\<close>); the remaining fields are the
    board's predicates of the same names, and \<open>pgn_str ms\<close> is \<open>str\<close> of a
    \<open>chess.pgn.Game\<close> whose main line is \<open>ms\<close>.
\<close>

record ('b, 'm) chess_lib =
  Board_start :: 'b
  Board_fen :: "string \<Rightarrow> 'b option"
  fen :: "'b \<Rightarrow> string"
  from_uci :: "string \<Rightarrow> 'm option"
  uci :: "'m \<Rightarrow> string"
  is_legal :: "'b \<Rightarrow> 'm \<Rightarrow> bool"
  push :: "'b \<Rightarrow> 'm \<Rightarrow> 'b"
  push_raises :: "'b \<Rightarrow> 'm \<Rightarrow> bool"
  turn :: "'b \<Rightarrow> bool"
  is_checkmate :: "'b \<Rightarrow> bool"
  is_stalemate :: "'b \<Rightarrow> bool"
  is_insufficient_material :: "'b \<Rightarrow> bool"
  is_repetition :: "'b \<Rightarrow> nat \<Rightarrow> bool"
  halfmove_clock :: "'b \<Rightarrow> nat"
  pgn_str :: "'m list \<Rightarrow> string"

text \<open>
  \<open>ChessEngine.get_best_move\<close> returns the engine's move, returns \<open>None\<close> (also the
  falsy null move), or raises. One call of \<open>make_move\<close> asks the engine at most once; the
  answer it would give is the function \<open>eng\<close>.
\<close>

datatype 'm engine_reply = BestMove 'm | NoMove | EngineError

datatype 'a outcome = Return 'a | Raise

definition py_push :: "('b, 'm) chess_lib \<Rightarrow> 'b \<Rightarrow> 'm \<Rightarrow> 'b option" where
  \<comment> \<open>\<open>board.push(move)\<close> where the code has not asked whether the move is legal:
      \<open>None\<close> when it raises AssertionError.\<close>
  "py_push L board move =
     (if push_raises L board move \<and> \<not> is_legal L board move then None
      else Some (push L board move))"

section \<open>Python helpers\<close>

definition py_slice_upto :: "'a list \<Rightarrow> int \<Rightarrow> 'a list" where
  \<comment> \<open>\<open>xs[:k]\<close>: a negative \<open>k\<close> counts from the end.\<close>
  "py_slice_upto xs k =
     (if 0 \<le> k then take (nat k) xs else take (nat (int (length xs) + k)) xs)"

definition digit_char :: "nat \<Rightarrow> char" where
  "digit_char d = ''0123456789'' ! d"

fun str_nat :: "nat \<Rightarrow> string" where
  "str_nat n = (if n < 10 then [digit_char n] else str_nat (n div 10) @ [digit_char (n mod 10)])"

declare str_nat.simps [simp del]

definition str_int :: "int \<Rightarrow> string" where
  "str_int i = (if i < 0 then CHR ''-'' # str_nat (nat (- i)) else str_nat (nat i))"

section \<open>The recovery decorator (app/utils/recovery.py)\<close>

text \<open>
  \<open>@recover_database\<close> runs the function it wraps up to \<open>max_retries\<close> times, until one
  run returns; each run that raises keeps what it has committed. After the last run it
  raises what that run raised (with no run at all, RuntimeError). When recovery is not
  enabled the function is run once. The configuration (app/config.py) admits
  \<open>max_retries\<close> from 1 to 20, 5 when it is not set. A run is given its number, from 1,
  for what may differ from one run to the next: the clock and the answer of the engine
  process.
\<close>

record RecoveryConfig =
  enabled :: bool
  max_retries :: nat

fun recover_attempts ::
  "nat \<Rightarrow> nat \<Rightarrow> (nat \<Rightarrow> 's \<Rightarrow> 's \<times> 'a outcome) \<Rightarrow> 's \<Rightarrow> 's \<times> 'a outcome" where
  \<comment> \<open>the loop \<open>for attempt in range(1, max_retries + 1)\<close> with \<open>n\<close> runs left\<close>
  "recover_attempts 0 attempt func d = (d, Raise)"
| "recover_attempts (Suc n) attempt func d =
     (case func attempt d of
        (d1, Return x) \<Rightarrow> (d1, Return x)
      | (d1, Raise) \<Rightarrow> recover_attempts n (attempt + 1) func d1)"

definition recover ::
  "RecoveryConfig \<Rightarrow> (nat \<Rightarrow> 's \<Rightarrow> 's \<times> 'a outcome) \<Rightarrow> 's \<Rightarrow> 's \<times> 'a outcome" where
  "recover cfg func d =
     (if \<not> enabled cfg then func 1 d else recover_attempts (max_retries cfg) 1 func d)"

text \<open>
  The service functions below are the functions under the decorator. With the store,
  the library and the engine as they are modelled, a service function that raises has
  committed nothing before, so every further run raises as well and the decorated call
  raises with the store as it was (lemmas \<open>undo_move_recovered\<close> and
  \<open>attempt_puzzle_recovered\<close>). The endpoint that creates a game commits before it
  raises; there the decorator is part of the model.
\<close>

section \<open>Store queries\<close>

definition get_game :: "db \<Rightarrow> int \<Rightarrow> Game option" where
  "get_game d g = find (\<lambda>x. id_game x = g) (games d)"

fun latest :: "GameSession \<Rightarrow> GameSession list \<Rightarrow> GameSession" where
  "latest s [] = s"
| "latest s (x # xs) = (if created_at s < created_at x then latest x xs else latest s xs)"

definition get_game_session :: "db \<Rightarrow> int \<Rightarrow> GameSession option" where
  \<comment> \<open>\<open>filter(game_id == g).order_by(created_at.desc()).first()\<close>\<close>
  "get_game_session d g =
     (case filter (\<lambda>x. game_id x = g) (sessions d) of
        [] \<Rightarrow> None
      | s # ss \<Rightarrow> Some (latest s ss))"

definition commit_session :: "db \<Rightarrow> GameSession \<Rightarrow> db" where
  "commit_session d s =
     d\<lparr>sessions := map (\<lambda>x. if id_session x = id_session s then s else x) (sessions d)\<rparr>"

definition commit_game :: "db \<Rightarrow> Game \<Rightarrow> db" where
  "commit_game d g =
     d\<lparr>games := map (\<lambda>x. if id_game x = id_game g then g else x) (games d)\<rparr>"

definition fresh_id :: "int list \<Rightarrow> int" where
  "fresh_id ids = fold max ids 0 + 1"

section \<open>GameService (app/services/game_service.py)\<close>

definition create_game ::
  "('b, 'm) chess_lib \<Rightarrow> nat \<Rightarrow> db \<Rightarrow> int option \<Rightarrow> int option \<Rightarrow> bool \<Rightarrow> db \<times> Game" where
  "create_game L now d white black is_bot_game =
     (let game = \<lparr>id_game = fresh_id (map id_game (games d)),
                   white_player_id = white, black_player_id = black,
                   pgn = None, status = IN_PROGRESS, ended_at = None\<rparr>;
          d1 = d\<lparr>games := games d @ [game]\<rparr>;
          session = \<lparr>id_session = fresh_id (map id_session (sessions d1)),
                      game_id = id_game game,
                      current_fen = fen L (Board_start L),
                      move_history = [],
                      last_move_at = now, created_at = now\<rparr>
      in (d1\<lparr>sessions := sessions d1 @ [session]\<rparr>, game))"

text \<open>The endpoint \<open>POST /api/games/\<close> (app/api/games.py) in front of it.\<close>

record GameCreate =
  gc_white_player_id :: "int option"
  gc_black_player_id :: "int option"
  gc_is_bot_game :: bool
  gc_bot_difficulty :: "int option"

definition api_create_game_run ::
  "('b, 'm) chess_lib \<Rightarrow> bool \<Rightarrow> nat \<Rightarrow> db \<Rightarrow> GameCreate \<Rightarrow> db \<times> Game outcome" where
  \<comment> \<open>One run of the endpoint function. \<open>configure_ok\<close>: whether
      \<open>engine.engine.configure\<close> returns; when it raises, the function raises
      HTTPException (500) after the game was stored.\<close>
  "api_create_game_run L configure_ok now d game_data =
     (let black = (if gc_is_bot_game game_data then None else gc_black_player_id game_data);
          (d1, game) = create_game L now d (gc_white_player_id game_data) black
                         (gc_is_bot_game game_data)
      in if gc_is_bot_game game_data \<and> gc_bot_difficulty game_data \<noteq> None \<and> \<not> configure_ok
         then (d1, Raise) else (d1, Return game))"

definition api_create_game ::
  "('b, 'm) chess_lib \<Rightarrow> RecoveryConfig \<Rightarrow> (nat \<Rightarrow> bool) \<Rightarrow> (nat \<Rightarrow> nat) \<Rightarrow> db \<Rightarrow> GameCreate
     \<Rightarrow> db \<times> Game outcome" where
  \<comment> \<open>The endpoint as it is served, under \<open>@recover_database\<close>: \<open>configure_ok k\<close> and
      \<open>now k\<close> are the engine's answer and the clock in run \<open>k\<close>.\<close>
  "api_create_game L cfg configure_ok now d game_data =
     recover cfg (\<lambda>attempt d1. api_create_game_run L (configure_ok attempt) (now attempt)
                                  d1 game_data) d"

definition get_game_result :: "('b, 'm) chess_lib \<Rightarrow> 'b \<Rightarrow> string option" where
  "get_game_result L board =
     (if is_checkmate L board then
        Some (if turn L board then ''black_won'' else ''white_won'')
      else if is_stalemate L board then Some ''draw''
      else if is_insufficient_material L board then Some ''draw''
      else if is_repetition L board 3 then Some ''draw''
      else if 150 \<le> halfmove_clock L board then Some ''draw''
      else None)"

fun pgn_moves :: "('b, 'm) chess_lib \<Rightarrow> 'b \<Rightarrow> string list \<Rightarrow> 'm list option" where
  "pgn_moves L temp_board [] = Some []"
| "pgn_moves L temp_board (move_uci # rest) =
     (case from_uci L move_uci of
        None \<Rightarrow> None
      | Some move \<Rightarrow>
          if is_legal L temp_board move
          then map_option (Cons move) (pgn_moves L (push L temp_board move) rest)
          else pgn_moves L temp_board rest)"

definition generate_pgn :: "('b, 'm) chess_lib \<Rightarrow> string list \<Rightarrow> string option" where
  \<comment> \<open>\<open>None\<close>: \<open>from_uci\<close> raised ValueError, which \<open>_generate_pgn\<close> does not catch.\<close>
  "generate_pgn L history = map_option (pgn_str L) (pgn_moves L (Board_start L) history)"

definition status_of_result :: "string \<Rightarrow> GameStatus" where
  "status_of_result game_result =
     (if game_result = ''white_won'' then WHITE_WON
      else if game_result = ''black_won'' then BLACK_WON
      else DRAW)"

type_synonym move_reply = "bool \<times> string \<times> string option \<times> string option"

definition bot_reply ::
  "('b, 'm) chess_lib \<Rightarrow> ('b \<Rightarrow> 'm engine_reply) \<Rightarrow> nat \<Rightarrow> db \<Rightarrow> Game \<Rightarrow> GameSession
     \<Rightarrow> 'b \<Rightarrow> string list \<Rightarrow> db \<times> move_reply outcome" where
  \<comment> \<open>The \<open>try\<close> block of \<open>make_move\<close>; \<open>except Exception\<close> turns what it raises into
      the final \<open>Move successful\<close>.\<close>
  "bot_reply L eng now d game session board history =
     (case eng board of
        BestMove bot_move_obj \<Rightarrow>
          (let bot_move = uci L bot_move_obj;
               board2 = push L board bot_move_obj;
               new_fen = fen L board2;
               history2 = history @ [bot_move];
               d2 = commit_session d (session\<lparr>current_fen := new_fen,
                      move_history := history2, last_move_at := now\<rparr>)
           in case get_game_result L board2 of
                Some game_result \<Rightarrow>
                  (case generate_pgn L history2 of
                     None \<Rightarrow> (d2, Return (True, ''Move successful'', Some new_fen, Some bot_move))
                   | Some p \<Rightarrow>
                       (commit_game d2 (game\<lparr>status := status_of_result game_result,
                          ended_at := Some now, pgn := Some p\<rparr>),
                        Return (True, ''Game ended: '' @ game_result, Some new_fen, Some bot_move)))
              | None \<Rightarrow> (d2, Return (True, ''Move successful'', Some new_fen, Some bot_move)))
      | NoMove \<Rightarrow> (d, Return (True, ''Move successful'', Some (fen L board), None))
      | EngineError \<Rightarrow> (d, Return (True, ''Move successful'', Some (fen L board), None)))"

definition make_move ::
  "('b, 'm) chess_lib \<Rightarrow> ('b \<Rightarrow> 'm engine_reply) \<Rightarrow> nat \<Rightarrow> db \<Rightarrow> int \<Rightarrow> string
     \<Rightarrow> db \<times> move_reply outcome \<times> 'b list" where
  \<comment> \<open>The third component lists the boards on which \<open>get_best_move\<close> was called.\<close>
  "make_move L eng now d g move_uci =
     (case get_game d g of
        None \<Rightarrow> (d, Return (False, ''Game not found'', None, None), [])
      | Some game \<Rightarrow>
          if status game \<noteq> IN_PROGRESS
          then (d, Return (False, ''Game is not in progress'', None, None), [])
          else
            (case get_game_session d g of
               None \<Rightarrow> (d, Return (False, ''Game session not found'', None, None), [])
             | Some session \<Rightarrow>
                 (case Board_fen L (current_fen session) of
                    None \<Rightarrow> (d, Return (False, ''Invalid board position'', None, None), [])
                  | Some board0 \<Rightarrow>
                      (case from_uci L move_uci of
                         None \<Rightarrow> (d, Return (False, ''Invalid move format'', None, None), [])
                       | Some move \<Rightarrow>
                           if \<not> is_legal L board0 move
                           then (d, Return (False, ''Invalid move'', None, None), [])
                           else
                             (let board = push L board0 move;
                                  new_fen = fen L board;
                                  history = move_history session @ [move_uci];
                                  session1 = session\<lparr>current_fen := new_fen,
                                    move_history := history, last_move_at := now\<rparr>;
                                  d1 = commit_session d session1
                              in case get_game_result L board of
                                   Some game_result \<Rightarrow>
                                     (case generate_pgn L history of
                                        None \<Rightarrow> (d1, Raise, [])
                                      | Some p \<Rightarrow>
                                          (commit_game d1 (game\<lparr>
                                             status := status_of_result game_result,
                                             ended_at := Some now, pgn := Some p\<rparr>),
                                           Return (True, ''Game ended: '' @ game_result,
                                             Some new_fen, None), []))
                                 | None \<Rightarrow>
                                     if black_player_id game = None \<and> \<not> turn L board
                                     then (let (d2, r) = bot_reply L eng now d1 game session1
                                                           board history
                                           in (d2, r, [board]))
                                     else (d1, Return (True, ''Move successful'',
                                             Some new_fen, None), []))))))"

fun replay_moves :: "('b, 'm) chess_lib \<Rightarrow> 'b \<Rightarrow> string list \<Rightarrow> 'b option outcome" where
  \<comment> \<open>The loop of \<open>undo_move\<close>: \<open>Return None\<close> when \<open>from_uci\<close> raises ValueError, which
      the loop catches; \<open>Raise\<close> when \<open>push\<close> raises AssertionError, which it does not.\<close>
  "replay_moves L board [] = Return (Some board)"
| "replay_moves L board (move_uci # rest) =
     (case from_uci L move_uci of
        None \<Rightarrow> Return None
      | Some move \<Rightarrow>
          (case py_push L board move of
             None \<Rightarrow> Raise
           | Some board1 \<Rightarrow> replay_moves L board1 rest))"

type_synonym undo_reply = "bool \<times> string \<times> string option"

definition undo_move ::
  "('b, 'm) chess_lib \<Rightarrow> nat \<Rightarrow> db \<Rightarrow> int \<Rightarrow> int \<Rightarrow> db \<times> undo_reply outcome" where
  "undo_move L now d g num_moves =
     (case get_game d g of
        None \<Rightarrow> (d, Return (False, ''Game not found'', None))
      | Some game \<Rightarrow>
          (case get_game_session d g of
             None \<Rightarrow> (d, Return (False, ''Game session not found'', None))
           | Some session \<Rightarrow>
               (let history = move_history session in
                if int (length history) < num_moves
                then (d, Return (False, ''Not enough moves to undo. Only ''
                            @ str_nat (length history) @ '' moves available.'', None))
                else
                  (case replay_moves L (Board_start L) (py_slice_upto history (- num_moves)) of
                     Raise \<Rightarrow> (d, Raise)
                   | Return None \<Rightarrow> (d, Return (False, ''Invalid move in history'', None))
                   | Return (Some board) \<Rightarrow>
                       (let new_fen = fen L board;
                            new_move_history = py_slice_upto history (- num_moves);
                            session1 = session\<lparr>current_fen := new_fen,
                              move_history := new_move_history, last_move_at := now\<rparr>;
                            game1 = (if status game \<noteq> IN_PROGRESS
                                     then game\<lparr>status := IN_PROGRESS, ended_at := None,
                                            pgn := None\<rparr>
                                     else game)
                        in (commit_game (commit_session d session1) game1,
                            Return (True, ''Undid '' @ str_int num_moves @ '' move(s)'',
                              Some new_fen)))))))"

section \<open>PuzzleService (app/services/puzzle_service.py)\<close>

definition get_puzzle :: "db \<Rightarrow> int \<Rightarrow> Puzzle option" where
  "get_puzzle d p = find (\<lambda>x. id_puzzle x = p) (puzzles d)"

definition update_user_stats :: "nat \<Rightarrow> db \<Rightarrow> int \<Rightarrow> int \<Rightarrow> bool \<Rightarrow> db" where
  "update_user_stats now d u p success =
     (let (d1, user_puzzle) =
            (case find (\<lambda>x. user_id x = u \<and> puzzle_id x = p) (user_puzzles d) of
               Some row \<Rightarrow> (d, row)
             | None \<Rightarrow>
                 (let row = \<lparr>id_up = fresh_id (map id_up (user_puzzles d)),
                              user_id = u, puzzle_id = p, solved = 0, failed = 0,
                              best_time_seconds = None, last_attempted_at = None\<rparr>
                  in (d\<lparr>user_puzzles := user_puzzles d @ [row]\<rparr>, row)));
          row1 = (if success then user_puzzle\<lparr>solved := solved user_puzzle + 1\<rparr>
                  else user_puzzle\<lparr>failed := failed user_puzzle + 1\<rparr>);
          row2 = row1\<lparr>last_attempted_at := Some now\<rparr>
      in d1\<lparr>user_puzzles :=
              map (\<lambda>x. if id_up x = id_up row2 then row2 else x) (user_puzzles d1)\<rparr>)"

fun replay_solution ::
  "('b, 'm) chess_lib \<Rightarrow> 'b \<Rightarrow> nat \<Rightarrow> string list \<Rightarrow> 'b \<times> nat" where
  \<comment> \<open>The loop over \<open>enumerate(solution_moves)\<close>, from index \<open>i\<close>: the board and
      \<open>current_move_index\<close> when it ends or breaks.\<close>
  "replay_solution L board i [] = (board, i)"
| "replay_solution L board i (sol_move # rest) =
     (case from_uci L sol_move of
        None \<Rightarrow> (board, i)
      | Some move \<Rightarrow>
          if is_legal L board move
          then replay_solution L (push L board move) (i + 1) rest
          else (board, i))"

definition truthy :: "int option \<Rightarrow> bool" where
  \<comment> \<open>\<open>if user_id:\<close>\<close>
  "truthy u = (case u of None \<Rightarrow> False | Some v \<Rightarrow> v \<noteq> 0)"

type_synonym attempt_reply = "bool \<times> string \<times> string option \<times> bool"

definition attempt_puzzle ::
  "('b, 'm) chess_lib \<Rightarrow> nat \<Rightarrow> db \<Rightarrow> int \<Rightarrow> string \<Rightarrow> int option
     \<Rightarrow> db \<times> attempt_reply outcome" where
  \<comment> \<open>\<open>Raise\<close>: \<open>board.push(user_move)\<close> raises AssertionError, which
      \<open>except ValueError\<close> does not catch.\<close>
  "attempt_puzzle L now d p move_uci user =
     (case get_puzzle d p of
        None \<Rightarrow> (d, Return (False, ''Puzzle not found'', None, False))
      | Some puzzle \<Rightarrow>
          (let solution_moves = (case moves puzzle of None \<Rightarrow> [] | Some ms \<Rightarrow> ms) in
           if solution_moves = [] then (d, Return (False, ''Invalid puzzle data'', None, False))
           else
             (case Board_fen L (puzzle_fen puzzle) of
                None \<Rightarrow> (d, Return (False, ''Invalid puzzle position'', None, False))
              | Some board0 \<Rightarrow>
                  (let (board, current_move_index) = replay_solution L board0 0 solution_moves in
                   if length solution_moves \<le> current_move_index
                   then (d, Return (False, ''Puzzle already solved'', None, True))
                   else
                     (let expected_move = solution_moves ! current_move_index in
                      case from_uci L move_uci of
                        None \<Rightarrow> (d, Return (False, ''Invalid move format'', None, False))
                      | Some user_move \<Rightarrow>
                          if uci L user_move = expected_move
                          then
                            (case py_push L board user_move of
                               None \<Rightarrow> (d, Raise)
                             | Some board1 \<Rightarrow>
                                 (let current_move_index1 = current_move_index + 1;
                                      is_complete =
                                        (length solution_moves \<le> current_move_index1);
                                      next_move =
                                        (if \<not> is_complete
                                         then Some (solution_moves ! current_move_index1)
                                         else None)
                                  in ((if truthy user
                                       then update_user_stats now d (the user) p True else d),
                                      Return (True, ''Correct move!'', next_move,
                                        is_complete))))
                          else
                            ((if truthy user
                              then update_user_stats now d (the user) p False else d),
                             Return (False, ''Incorrect move. Try again!'', None,
                               False)))))))"

text \<open>
  \<open>get_user_stats\<close> computes the success rate in floating point; the float operations
  it applies are a parameter. A best time is a float read for its order and its
  truth value only, which a rational number has as well.
\<close>

record 'f float_ops =
  true_div :: "int \<Rightarrow> int \<Rightarrow> 'f"
  mul_int :: "'f \<Rightarrow> int \<Rightarrow> 'f"
  round_ndigits :: "'f \<Rightarrow> nat \<Rightarrow> 'f"
  float_zero :: 'f

record 'f user_stats =
  us_user_id :: int
  total_solved :: int
  total_failed :: int
  success_rate :: 'f
  us_best_time_seconds :: "rat option"
  puzzles_by_difficulty :: "PuzzleDifficulty \<rightharpoonup> int \<times> int"

fun min_default :: "rat list \<Rightarrow> rat option" where
  \<comment> \<open>\<open>min(xs, default=None)\<close>\<close>
  "min_default [] = None"
| "min_default (x # xs) = Some (fold min xs x)"

fun group_by_difficulty ::
  "db \<Rightarrow> UserPuzzle list \<Rightarrow> (PuzzleDifficulty \<rightharpoonup> int \<times> int)
     \<Rightarrow> (PuzzleDifficulty \<rightharpoonup> int \<times> int)" where
  "group_by_difficulty d [] acc = acc"
| "group_by_difficulty d (up # ups) acc =
     (case get_puzzle d (puzzle_id up) of
        None \<Rightarrow> group_by_difficulty d ups acc
      | Some puzzle \<Rightarrow>
          (let diff = difficulty puzzle;
               (s, f) = (case acc diff of None \<Rightarrow> (0, 0) | Some e \<Rightarrow> e)
           in group_by_difficulty d ups (acc(diff \<mapsto> (s + solved up, f + failed up)))))"

definition get_user_stats :: "'f float_ops \<Rightarrow> db \<Rightarrow> int \<Rightarrow> 'f user_stats" where
  "get_user_stats F d u =
     (let rows = filter (\<lambda>x. user_id x = u) (user_puzzles d);
          tsolved = sum_list (map solved rows);
          tfailed = sum_list (map failed rows);
          total_attempts = tsolved + tfailed;
          rate = (if 0 < total_attempts
                  then mul_int F (true_div F tsolved total_attempts) 100
                  else float_zero F);
          best_time = min_default
            (map (\<lambda>x. the (best_time_seconds x))
               (filter (\<lambda>x. case best_time_seconds x of None \<Rightarrow> False | Some t \<Rightarrow> t \<noteq> 0) rows))
      in \<lparr>us_user_id = u, total_solved = tsolved, total_failed = tfailed,
          success_rate = round_ndigits F rate 2,
          us_best_time_seconds = best_time,
          puzzles_by_difficulty = group_by_difficulty d rows Map.empty\<rparr>)"

section \<open>A model of the rules library\<close>

text \<open>
  An executable instance of the library's operations, for running the services on
  concrete games: standard chess as python-chess plays it (castling given as the king's
  two-square move, en passant, promotion, the FEN text of \<open>fen()\<close> with the en passant
  square shown only when the capture is legal). The text of a game record is kept to its
  main line in coordinates.

  A square is its file and its rank, both from 0 (\<open>e1\<close> is \<open>(4, 0)\<close>); a placement is
  the list of the eight ranks, first rank first. White is \<open>True\<close>, as \<open>chess.WHITE\<close>.
\<close>

datatype ptype = PAWN | KNIGHT | BISHOP | ROOK | QUEEN | KING

type_synonym piece = "bool \<times> ptype"

type_synonym square = "nat \<times> nat"

datatype move = Null | Drop ptype square | Move square square "ptype option"

record position =
  ranks :: "piece option list list"
  side :: bool
  castling :: "bool \<times> bool \<times> bool \<times> bool"
  ep_square :: "square option"
  halfmoves :: nat
  fullmoves :: nat

record board =
  pos :: position
  stack :: "position list"

definition piece_at :: "piece option list list \<Rightarrow> square \<Rightarrow> piece option" where
  "piece_at rs sq = rs ! snd sq ! fst sq"

definition put :: "piece option list list \<Rightarrow> square \<Rightarrow> piece option \<Rightarrow> piece option list list" where
  "put rs sq x = rs[snd sq := (rs ! snd sq)[fst sq := x]]"

subsection \<open>Squares, pieces and moves as text\<close>

fun index_of :: "'a \<Rightarrow> 'a list \<Rightarrow> nat option" where
  "index_of x [] = None"
| "index_of x (y # ys) = (if x = y then Some 0 else map_option Suc (index_of x ys))"

definition square_name :: "square \<Rightarrow> string" where
  "square_name sq = [''abcdefgh'' ! fst sq, ''12345678'' ! snd sq]"

definition parse_square :: "string \<Rightarrow> square option" where
  "parse_square s =
     (case s of
        [f, r] \<Rightarrow>
          (case index_of f ''abcdefgh'' of
             None \<Rightarrow> None
           | Some x \<Rightarrow>
               (case index_of r ''12345678'' of None \<Rightarrow> None | Some y \<Rightarrow> Some (x, y)))
      | _ \<Rightarrow> None)"

fun ptype_symbol :: "ptype \<Rightarrow> char" where
  "ptype_symbol PAWN = CHR ''p''"
| "ptype_symbol KNIGHT = CHR ''n''"
| "ptype_symbol BISHOP = CHR ''b''"
| "ptype_symbol ROOK = CHR ''r''"
| "ptype_symbol QUEEN = CHR ''q''"
| "ptype_symbol KING = CHR ''k''"

fun ptype_upper :: "ptype \<Rightarrow> char" where
  "ptype_upper PAWN = CHR ''P''"
| "ptype_upper KNIGHT = CHR ''N''"
| "ptype_upper BISHOP = CHR ''B''"
| "ptype_upper ROOK = CHR ''R''"
| "ptype_upper QUEEN = CHR ''Q''"
| "ptype_upper KING = CHR ''K''"

definition all_ptypes :: "ptype list" where
  "all_ptypes = [PAWN, KNIGHT, BISHOP, ROOK, QUEEN, KING]"

definition symbol_ptype :: "char \<Rightarrow> ptype option" where
  "symbol_ptype c = find (\<lambda>k. ptype_symbol k = c) all_ptypes"

definition upper_ptype :: "char \<Rightarrow> ptype option" where
  "upper_ptype c = find (\<lambda>k. ptype_upper k = c) all_ptypes"

definition piece_symbol :: "piece \<Rightarrow> char" where
  "piece_symbol pc = (if fst pc then ptype_upper (snd pc) else ptype_symbol (snd pc))"

definition symbol_piece :: "char \<Rightarrow> piece option" where
  "symbol_piece c =
     (case upper_ptype c of
        Some k \<Rightarrow> Some (True, k)
      | None \<Rightarrow> map_option (Pair False) (symbol_ptype c))"

definition pc_from_uci :: "string \<Rightarrow> move option" where
  "pc_from_uci s =
     (if s = ''0000'' then Some Null
      else if length s = 4 \<and> s ! 1 = CHR ''@'' then
        (case (symbol_ptype (s ! 0), upper_ptype (s ! 0), parse_square (drop 2 s)) of
           (Some k, _, Some sq) \<Rightarrow> Some (Drop k sq)
         | (None, Some k, Some sq) \<Rightarrow> Some (Drop k sq)
         | _ \<Rightarrow> None)
      else if 4 \<le> length s \<and> length s \<le> 5 then
        (case (parse_square (take 2 s), parse_square (take 2 (drop 2 s))) of
           (Some a, Some t) \<Rightarrow>
             (if length s = 5 then
                (case symbol_ptype (s ! 4) of
                   None \<Rightarrow> None
                 | Some k \<Rightarrow> if a = t then None else Some (Move a t (Some k)))
              else if a = t then None else Some (Move a t None))
         | _ \<Rightarrow> None)
      else None)"

fun pc_uci :: "move \<Rightarrow> string" where
  "pc_uci Null = ''0000''"
| "pc_uci (Drop k sq) = ptype_upper k # CHR ''@'' # square_name sq"
| "pc_uci (Move a t None) = square_name a @ square_name t"
| "pc_uci (Move a t (Some k)) = square_name a @ square_name t @ [ptype_symbol k]"

subsection \<open>Attacks\<close>

definition eight :: "nat list" where
  "eight = [0, 1, 2, 3, 4, 5, 6, 7]"

definition all_squares :: "square list" where
  "all_squares = concat (map (\<lambda>r. map (\<lambda>f. (f, r)) eight) eight)"

fun some_sq :: "('a \<Rightarrow> bool) \<Rightarrow> 'a list \<Rightarrow> bool" where
  \<comment> \<open>\<open>any(P(x) for x in xs)\<close>, which stops at the first hit\<close>
  "some_sq P [] = False"
| "some_sq P (x # xs) = (if P x then True else some_sq P xs)"

fun ray_clear :: "piece option list list \<Rightarrow> int \<Rightarrow> int \<Rightarrow> int \<Rightarrow> int \<Rightarrow> nat \<Rightarrow> bool" where
  \<comment> \<open>the \<open>n\<close> squares after \<open>(f, r)\<close> in steps of \<open>(df, dr)\<close> are empty\<close>
  "ray_clear rs f r df dr 0 = True"
| "ray_clear rs f r df dr (Suc n) =
     (if piece_at rs (nat (f + df), nat (r + dr)) = None
      then ray_clear rs (f + df) (r + dr) df dr n else False)"

definition clear_between :: "piece option list list \<Rightarrow> square \<Rightarrow> square \<Rightarrow> bool" where
  \<comment> \<open>for two squares on a line: the squares between them are empty\<close>
  "clear_between rs a t =
     (let df = int (fst t) - int (fst a);
          dr = int (snd t) - int (snd a)
      in ray_clear rs (int (fst a)) (int (snd a)) (sgn df) (sgn dr)
           (nat (max \<bar>df\<bar> \<bar>dr\<bar>) - 1))"

definition attacks :: "piece option list list \<Rightarrow> square \<Rightarrow> square \<Rightarrow> bool" where
  "attacks rs a t =
     (case piece_at rs a of
        None \<Rightarrow> False
      | Some pc \<Rightarrow>
          (let df = int (fst t) - int (fst a);
               dr = int (snd t) - int (snd a)
           in if a = t then False else
              (case snd pc of
                 PAWN \<Rightarrow> \<bar>df\<bar> = 1 \<and> dr = (if fst pc then 1 else - 1)
               | KNIGHT \<Rightarrow> (\<bar>df\<bar> = 1 \<and> \<bar>dr\<bar> = 2) \<or> (\<bar>df\<bar> = 2 \<and> \<bar>dr\<bar> = 1)
               | KING \<Rightarrow> \<bar>df\<bar> \<le> 1 \<and> \<bar>dr\<bar> \<le> 1
               | BISHOP \<Rightarrow> if \<bar>df\<bar> = \<bar>dr\<bar> then clear_between rs a t else False
               | ROOK \<Rightarrow> if df = 0 \<or> dr = 0 then clear_between rs a t else False
               | QUEEN \<Rightarrow> if \<bar>df\<bar> = \<bar>dr\<bar> \<or> df = 0 \<or> dr = 0
                          then clear_between rs a t else False)))"

definition attacked_by :: "piece option list list \<Rightarrow> bool \<Rightarrow> square \<Rightarrow> bool" where
  "attacked_by rs c t =
     some_sq (\<lambda>a. case piece_at rs a of
                    None \<Rightarrow> False
                  | Some pc \<Rightarrow> if fst pc = c then attacks rs a t else False)
       all_squares"

definition king_attacked :: "piece option list list \<Rightarrow> bool \<Rightarrow> bool" where
  "king_attacked rs c =
     (case find (\<lambda>a. piece_at rs a = Some (c, KING)) all_squares of
        None \<Rightarrow> False
      | Some k \<Rightarrow> attacked_by rs (\<not> c) k)"

subsection \<open>Applying a move\<close>

definition is_type :: "ptype \<Rightarrow> piece option \<Rightarrow> bool" where
  "is_type k x = (case x of None \<Rightarrow> False | Some pc \<Rightarrow> snd pc = k)"

definition is_colour :: "bool \<Rightarrow> piece option \<Rightarrow> bool" where
  "is_colour c x = (case x of None \<Rightarrow> False | Some pc \<Rightarrow> fst pc = c)"

definition to_chess960 :: "piece option list list \<Rightarrow> square \<Rightarrow> square \<Rightarrow> square" where
  \<comment> \<open>castling as the king taking its rook, the form \<open>push\<close> works on\<close>
  "to_chess960 rs a t =
     (if (a = (4, 0) \<or> a = (4, 7)) \<and> is_type KING (piece_at rs a) \<and> snd t = snd a then
        (if fst t = 6 \<and> \<not> is_type ROOK (piece_at rs t) then (7, snd a)
         else if fst t = 2 \<and> \<not> is_type ROOK (piece_at rs t) then (0, snd a) else t)
      else t)"

definition from_chess960 :: "piece option list list \<Rightarrow> square \<Rightarrow> square \<Rightarrow> square" where
  "from_chess960 rs a t =
     (if (a = (4, 0) \<or> a = (4, 7)) \<and> is_type KING (piece_at rs a) \<and> snd t = snd a then
        (if fst t = 7 then (6, snd a) else if fst t = 0 then (2, snd a) else t)
      else t)"

definition is_en_passant ::
  "piece option list list \<Rightarrow> square option \<Rightarrow> square \<Rightarrow> square \<Rightarrow> bool" where
  "is_en_passant rs ep a t =
     (ep = Some t \<and> is_type PAWN (piece_at rs a)
      \<and> \<bar>8 * (int (snd t) - int (snd a)) + (int (fst t) - int (fst a))\<bar> \<in> {7, 9}
      \<and> piece_at rs t = None)"

definition moved_ranks ::
  "piece option list list \<Rightarrow> bool \<Rightarrow> square option \<Rightarrow> square \<Rightarrow> square \<Rightarrow> ptype option
     \<Rightarrow> piece option list list" where
  \<comment> \<open>the placement after \<open>push\<close> of a move from \<open>a\<close> to \<open>t\<close> (castling in the
      king-takes-rook form) by the side \<open>c\<close>; on a move from an empty square \<open>push\<close>
      raises (\<open>pc_push_raises\<close>) and there is no placement after it\<close>
  "moved_ranks rs c ep a t pr =
     (case piece_at rs a of
        None \<Rightarrow> rs
      | Some pc \<Rightarrow>
          (let rs1 = put rs a None;
               rs2 = (if is_en_passant rs ep a t
                      then put rs1 (fst t, if c then snd t - 1 else snd t + 1) None else rs1);
               k1 = (case pr of None \<Rightarrow> snd pc | Some q \<Rightarrow> q);
               back = (if c then 0 else 7)
           in if k1 = KING \<and> is_colour c (piece_at rs t) then
                (if fst t < fst a
                 then put (put (put rs2 t None) (2, back) (Some (c, KING))) (3, back)
                        (Some (c, ROOK))
                 else put (put (put rs2 t None) (6, back) (Some (c, KING))) (5, back)
                        (Some (c, ROOK)))
              else put rs2 t (Some (c, k1))))"

definition moved_castling ::
  "piece option list list \<Rightarrow> bool \<Rightarrow> bool \<times> bool \<times> bool \<times> bool \<Rightarrow> square \<Rightarrow> square
     \<Rightarrow> bool \<times> bool \<times> bool \<times> bool" where
  "moved_castling rs c cr a t =
     (case cr of (wk, wq, bk, bq) \<Rightarrow>
        (let king = is_type KING (piece_at rs a) in
         (wk \<and> a \<noteq> (7, 0) \<and> t \<noteq> (7, 0) \<and> \<not> (king \<and> c),
          wq \<and> a \<noteq> (0, 0) \<and> t \<noteq> (0, 0) \<and> \<not> (king \<and> c),
          bk \<and> a \<noteq> (7, 7) \<and> t \<noteq> (7, 7) \<and> \<not> (king \<and> \<not> c),
          bq \<and> a \<noteq> (0, 7) \<and> t \<noteq> (0, 7) \<and> \<not> (king \<and> \<not> c))))"

definition is_zeroing :: "piece option list list \<Rightarrow> bool \<Rightarrow> square \<Rightarrow> square \<Rightarrow> bool" where
  "is_zeroing rs c a t =
     (is_type PAWN (piece_at rs a) \<or> is_type PAWN (piece_at rs t)
      \<or> is_colour (\<not> c) (piece_at rs a) \<or> is_colour (\<not> c) (piece_at rs t))"

definition raw_push :: "position \<Rightarrow> move \<Rightarrow> position" where
  "raw_push p m =
     (let c = side p;
          hm = halfmoves p + 1;
          fm = (if c then fullmoves p else fullmoves p + 1)
      in case m of
           Null \<Rightarrow> p\<lparr>side := \<not> c, ep_square := None, halfmoves := hm, fullmoves := fm\<rparr>
         | Drop k sq \<Rightarrow>
             p\<lparr>ranks := put (ranks p) sq (Some (c, k)), side := \<not> c, ep_square := None,
               halfmoves := hm, fullmoves := fm\<rparr>
         | Move a t0 pr \<Rightarrow>
             (let rs = ranks p;
                  t = to_chess960 rs a t0
              in \<lparr>ranks = moved_ranks rs c (ep_square p) a t pr,
                  side = \<not> c,
                  castling = moved_castling rs c (castling p) a t,
                  ep_square =
                    (if is_type PAWN (piece_at rs a) \<and> fst t = fst a
                        \<and> snd a = 1 \<and> snd t = 3 then Some (fst a, 2)
                     else if is_type PAWN (piece_at rs a) \<and> fst t = fst a
                        \<and> snd a = 6 \<and> snd t = 4 then Some (fst a, 5)
                     else None),
                  halfmoves = (if is_zeroing rs c a t then 0 else hm),
                  fullmoves = fm\<rparr>))"

subsection \<open>Legal moves\<close>

definition castling_ok :: "position \<Rightarrow> square \<Rightarrow> square \<Rightarrow> bool" where
  \<comment> \<open>the castling move from \<open>a\<close> to \<open>t\<close> (the king's two-square move) is generated\<close>
  "castling_ok p a t =
     (let rs = ranks p; c = side p; back = (if c then 0 else 7);
          nk = put rs a None
      in case castling p of (wk, wq, bk, bq) \<Rightarrow>
           if a = (4, back) \<and> piece_at rs a = Some (c, KING) then
             (if t = (6, back) then
                (if (if c then wk else bk) \<and> piece_at rs (7, back) = Some (c, ROOK)
                    \<and> piece_at rs (5, back) = None \<and> piece_at rs (6, back) = None
                 then \<not> attacked_by nk (\<not> c) a \<and> \<not> attacked_by nk (\<not> c) (5, back)
                      \<and> \<not> attacked_by (put (put nk (7, back) None) (5, back) (Some (c, ROOK)))
                            (\<not> c) (6, back)
                 else False)
              else if t = (2, back) then
                (if (if c then wq else bq) \<and> piece_at rs (0, back) = Some (c, ROOK)
                    \<and> piece_at rs (1, back) = None \<and> piece_at rs (2, back) = None
                    \<and> piece_at rs (3, back) = None
                 then \<not> attacked_by nk (\<not> c) a \<and> \<not> attacked_by nk (\<not> c) (3, back)
                      \<and> \<not> attacked_by (put (put nk (0, back) None) (3, back) (Some (c, ROOK)))
                            (\<not> c) (2, back)
                 else False)
              else False)
           else False)"

definition pawn_ok ::
  "piece option list list \<Rightarrow> bool \<Rightarrow> square option \<Rightarrow> square \<Rightarrow> square \<Rightarrow> ptype option
     \<Rightarrow> bool" where
  \<comment> \<open>the pawn move is among the generated pseudo-legal moves\<close>
  "pawn_ok rs c ep a t pr =
     (let df = int (fst t) - int (fst a);
          dr = int (snd t) - int (snd a);
          fwd = (if c then 1 else - 1)
      in (if snd t = (if c then 7 else 0)
          then pr \<in> {Some QUEEN, Some ROOK, Some BISHOP, Some KNIGHT} else pr = None) \<and>
         ((df = 0 \<and> dr = fwd \<and> piece_at rs t = None)
          \<or> (df = 0 \<and> dr = 2 * fwd \<and> snd a = (if c then 1 else 6)
              \<and> piece_at rs (fst a, if c then 2 else 5) = None \<and> piece_at rs t = None)
          \<or> (\<bar>df\<bar> = 1 \<and> dr = fwd \<and> is_colour (\<not> c) (piece_at rs t))
          \<or> (\<bar>df\<bar> = 1 \<and> dr = fwd \<and> ep = Some t \<and> piece_at rs t = None
              \<and> snd a = (if c then 4 else 3))))"

definition on_board :: "square \<Rightarrow> bool" where
  "on_board sq = (fst sq < 8 \<and> snd sq < 8)"

definition pseudo_legal :: "position \<Rightarrow> move \<Rightarrow> bool" where
  "pseudo_legal p m =
     (case m of
        Move a t pr \<Rightarrow>
          if on_board a \<and> on_board t then
            (let rs = ranks p; c = side p in
             case piece_at rs a of
               None \<Rightarrow> False
             | Some pc \<Rightarrow>
                 if fst pc \<noteq> c then False
                 else if pr \<noteq> None \<and> \<not> (snd pc = PAWN \<and> snd t = (if c then 7 else 0))
                 then False
                 else if (if snd pc = KING then castling_ok p a (from_chess960 rs a t)
                          else False)
                 then True
                 else if is_colour c (piece_at rs t) then False
                 else if snd pc = PAWN then pawn_ok rs c (ep_square p) a t pr
                 else attacks rs a t)
          else False
      | _ \<Rightarrow> False)"

definition legal :: "position \<Rightarrow> move \<Rightarrow> bool" where
  "legal p m =
     (if pseudo_legal p m then \<not> king_attacked (ranks (raw_push p m)) (side p) else False)"

definition has_legal_move :: "position \<Rightarrow> bool" where
  "has_legal_move p =
     some_sq (\<lambda>a. case piece_at (ranks p) a of
                    None \<Rightarrow> False
                  | Some pc \<Rightarrow>
                      if fst pc = side p
                      then some_sq (\<lambda>t. legal p (Move a t
                                 (if snd pc = PAWN \<and> snd t = (if side p then 7 else 0)
                                  then Some QUEEN else None)))
                             all_squares
                      else False)
       all_squares"

definition has_legal_en_passant ::
  "piece option list list \<Rightarrow> bool \<Rightarrow> square option \<Rightarrow> bool" where
  "has_legal_en_passant rs c ep =
     (case ep of
        None \<Rightarrow> False
      | Some t \<Rightarrow>
          if on_board t then
            some_sq (\<lambda>a. if piece_at rs a = Some (c, PAWN)
                         then if pawn_ok rs c ep a t None \<and> is_en_passant rs ep a t
                              then \<not> king_attacked (moved_ranks rs c ep a t None) c
                              else False
                         else False)
              all_squares
          else False)"

definition clean_castling ::
  "piece option list list \<Rightarrow> bool \<times> bool \<times> bool \<times> bool \<Rightarrow> bool \<times> bool \<times> bool \<times> bool" where
  "clean_castling rs cr =
     (case cr of (wk, wq, bk, bq) \<Rightarrow>
        (wk \<and> piece_at rs (4, 0) = Some (True, KING) \<and> piece_at rs (7, 0) = Some (True, ROOK),
         wq \<and> piece_at rs (4, 0) = Some (True, KING) \<and> piece_at rs (0, 0) = Some (True, ROOK),
         bk \<and> piece_at rs (4, 7) = Some (False, KING) \<and> piece_at rs (7, 7) = Some (False, ROOK),
         bq \<and> piece_at rs (4, 7) = Some (False, KING) \<and> piece_at rs (0, 7) = Some (False, ROOK)))"

definition norm :: "position \<Rightarrow> position" where
  \<comment> \<open>what the library shows of a position: castling rights with king and rook in place,
      an en passant square only when the capture is legal\<close>
  "norm p =
     p\<lparr>castling := clean_castling (ranks p) (castling p),
       ep_square := (if has_legal_en_passant (ranks p) (side p) (ep_square p)
                     then ep_square p else None)\<rparr>"

definition pc_push_raises :: "board \<Rightarrow> move \<Rightarrow> bool" where
  \<comment> \<open>the assertion of \<open>push\<close>: no piece on the square the move leaves\<close>
  "pc_push_raises b m =
     (case m of
        Move a t pr \<Rightarrow> if on_board a then piece_at (ranks (pos b)) a = None else True
      | _ \<Rightarrow> False)"

definition pc_push :: "board \<Rightarrow> move \<Rightarrow> board" where
  "pc_push b m = \<lparr>pos = norm (raw_push (pos b) m), stack = pos b # stack b\<rparr>"

definition back_rank :: "bool \<Rightarrow> piece option list" where
  "back_rank c = map (\<lambda>k. Some (c, k)) [ROOK, KNIGHT, BISHOP, QUEEN, KING, BISHOP, KNIGHT, ROOK]"

definition start_ranks :: "piece option list list" where
  "start_ranks =
     [back_rank True, replicate 8 (Some (True, PAWN))] @ replicate 4 (replicate 8 None)
     @ [replicate 8 (Some (False, PAWN)), back_rank False]"

definition pc_start :: board where
  "pc_start = \<lparr>pos = \<lparr>ranks = start_ranks, side = True,
                      castling = (True, True, True, True), ep_square = None,
                      halfmoves = 0, fullmoves = 1\<rparr>, stack = []\<rparr>"

subsection \<open>Positions as FEN text\<close>

fun show_rank :: "piece option list \<Rightarrow> nat \<Rightarrow> string" where
  "show_rank [] k = (if k = 0 then [] else [digit_char k])"
| "show_rank (None # xs) k = show_rank xs (Suc k)"
| "show_rank (Some pc # xs) k =
     (if k = 0 then [] else [digit_char k]) @ piece_symbol pc # show_rank xs 0"

fun join_with :: "char \<Rightarrow> string list \<Rightarrow> string" where
  "join_with c [] = []"
| "join_with c [w] = w"
| "join_with c (w # v # ws) = w @ c # join_with c (v # ws)"

definition board_fen :: "piece option list list \<Rightarrow> string" where
  "board_fen rs = join_with (CHR ''/'') (map (\<lambda>row. show_rank row 0) (rev rs))"

definition castling_fen :: "bool \<times> bool \<times> bool \<times> bool \<Rightarrow> string" where
  "castling_fen cr =
     (case cr of (wk, wq, bk, bq) \<Rightarrow>
        (if \<not> wk \<and> \<not> wq \<and> \<not> bk \<and> \<not> bq then ''-''
         else (if wk then ''K'' else []) @ (if wq then ''Q'' else [])
              @ (if bk then ''k'' else []) @ (if bq then ''q'' else [])))"

definition position_fen :: "position \<Rightarrow> string" where
  "position_fen p =
     join_with (CHR '' '')
       [board_fen (ranks p),
        (if side p then ''w'' else ''b''),
        castling_fen (castling p),
        (case ep_square p of None \<Rightarrow> ''-'' | Some sq \<Rightarrow> square_name sq),
        str_nat (halfmoves p),
        str_nat (fullmoves p)]"

definition pc_fen :: "board \<Rightarrow> string" where
  "pc_fen b = position_fen (pos b)"

fun split_on :: "char \<Rightarrow> string \<Rightarrow> string list" where
  "split_on c [] = [[]]"
| "split_on c (x # xs) =
     (if x = c then [] # split_on c xs
      else (case split_on c xs of [] \<Rightarrow> [[x]] | w # ws \<Rightarrow> (x # w) # ws))"

fun parse_rank :: "string \<Rightarrow> bool \<Rightarrow> piece option list option" where
  \<comment> \<open>the flag: the character before was a digit (two digits in a row are refused)\<close>
  "parse_rank [] prev = Some []"
| "parse_rank (x # xs) prev =
     (case index_of x ''12345678'' of
        Some i \<Rightarrow>
          if prev then None
          else map_option (\<lambda>r. replicate (Suc i) None @ r) (parse_rank xs True)
      | None \<Rightarrow>
          (case symbol_piece x of
             None \<Rightarrow> None
           | Some pc \<Rightarrow> map_option (Cons (Some pc)) (parse_rank xs False)))"

definition parse_board :: "string \<Rightarrow> piece option list list option" where
  "parse_board s =
     (let rows = split_on (CHR ''/'') s in
      if length rows \<noteq> 8 then None
      else (case those (map (\<lambda>r. parse_rank r False) rows) of
              None \<Rightarrow> None
            | Some rs \<Rightarrow> if list_all (\<lambda>r. length r = 8) rs then Some (rev rs) else None))"

fun parse_nat_acc :: "string \<Rightarrow> nat \<Rightarrow> nat option" where
  "parse_nat_acc [] acc = Some acc"
| "parse_nat_acc (x # xs) acc =
     (case index_of x ''0123456789'' of
        None \<Rightarrow> None
      | Some d \<Rightarrow> parse_nat_acc xs (acc * 10 + d))"

definition parse_nat :: "string \<Rightarrow> nat option" where
  "parse_nat s = (if s = [] then None else parse_nat_acc s 0)"

definition parse_castling :: "string \<Rightarrow> (bool \<times> bool \<times> bool \<times> bool) option" where
  "parse_castling s =
     (if s = ''-'' then Some (False, False, False, False)
      else if s \<noteq> [] \<and> s = castling_fen (CHR ''K'' \<in> set s, CHR ''Q'' \<in> set s,
                                          CHR ''k'' \<in> set s, CHR ''q'' \<in> set s)
      then Some (CHR ''K'' \<in> set s, CHR ''Q'' \<in> set s, CHR ''k'' \<in> set s, CHR ''q'' \<in> set s)
      else None)"

definition parse_position :: "string \<Rightarrow> position option" where
  "parse_position s =
     (case filter (\<lambda>w. w \<noteq> []) (split_on (CHR '' '') s) of
        [] \<Rightarrow> None
      | board_part # rest \<Rightarrow>
          if 5 < length rest then None
          else
            (let parts = rest @ drop (length rest) [''w'', ''-'', ''-'', ''0'', ''1''] in
             case (parse_board board_part,
                   (if parts ! 0 = ''w'' then Some True
                    else if parts ! 0 = ''b'' then Some False else None),
                   parse_castling (parts ! 1),
                   (if parts ! 2 = ''-'' then Some None
                    else map_option Some (parse_square (parts ! 2))),
                   parse_nat (parts ! 3), parse_nat (parts ! 4)) of
               (Some rs, Some c, Some cr, Some ep, Some hm, Some fm) \<Rightarrow>
                 Some (norm \<lparr>ranks = rs, side = c, castling = cr, ep_square = ep,
                             halfmoves = hm, fullmoves = max fm 1\<rparr>)
             | _ \<Rightarrow> None))"

definition pc_Board :: "string \<Rightarrow> board option" where
  "pc_Board s = map_option (\<lambda>p. \<lparr>pos = p, stack = []\<rparr>) (parse_position s)"

subsection \<open>Outcomes\<close>

definition pc_is_checkmate :: "board \<Rightarrow> bool" where
  "pc_is_checkmate b =
     (if king_attacked (ranks (pos b)) (side (pos b))
      then \<not> has_legal_move (pos b) else False)"

definition pc_is_stalemate :: "board \<Rightarrow> bool" where
  "pc_is_stalemate b =
     (if king_attacked (ranks (pos b)) (side (pos b))
      then False else \<not> has_legal_move (pos b))"

definition count_pieces :: "piece option list list \<Rightarrow> (piece \<Rightarrow> bool) \<Rightarrow> nat" where
  "count_pieces rs P =
     length (filter (\<lambda>x. case x of None \<Rightarrow> False | Some pc \<Rightarrow> P pc) (concat rs))"

definition dark_square :: "square \<Rightarrow> bool" where
  "dark_square sq = even (fst sq + snd sq)"

definition bishops_on :: "piece option list list \<Rightarrow> bool \<Rightarrow> bool" where
  "bishops_on rs dark =
     some_sq (\<lambda>a. is_type BISHOP (piece_at rs a) \<and> dark_square a = dark) all_squares"

definition has_insufficient_material :: "piece option list list \<Rightarrow> bool \<Rightarrow> bool" where
  "has_insufficient_material rs c =
     (if 0 < count_pieces rs (\<lambda>pc. fst pc = c \<and> snd pc \<in> {PAWN, ROOK, QUEEN}) then False
      else if 0 < count_pieces rs (\<lambda>pc. fst pc = c \<and> snd pc = KNIGHT) then
        count_pieces rs (\<lambda>pc. fst pc = c) \<le> 2
        \<and> count_pieces rs (\<lambda>pc. fst pc \<noteq> c \<and> snd pc \<notin> {KING, QUEEN}) = 0
      else if 0 < count_pieces rs (\<lambda>pc. fst pc = c \<and> snd pc = BISHOP) then
        (\<not> bishops_on rs True \<or> \<not> bishops_on rs False)
        \<and> count_pieces rs (\<lambda>pc. snd pc = PAWN) = 0
        \<and> count_pieces rs (\<lambda>pc. snd pc = KNIGHT) = 0
      else True)"

definition pc_is_insufficient_material :: "board \<Rightarrow> bool" where
  "pc_is_insufficient_material b =
     (if has_insufficient_material (ranks (pos b)) True
      then has_insufficient_material (ranks (pos b)) False else False)"

definition transposition_key ::
  "position \<Rightarrow> piece option list list \<times> bool \<times> (bool \<times> bool \<times> bool \<times> bool) \<times> square option" where
  "transposition_key p = (ranks p, side p, castling p, ep_square p)"

definition pc_is_repetition :: "board \<Rightarrow> nat \<Rightarrow> bool" where
  "pc_is_repetition b n =
     (n \<le> 1 + length (filter (\<lambda>q. transposition_key q = transposition_key (pos b)) (stack b)))"

definition pc_pgn_str :: "move list \<Rightarrow> string" where
  \<comment> \<open>The record's text is not modelled beyond its main line, given in coordinates.\<close>
  "pc_pgn_str ms = join_with (CHR '' '') (map pc_uci ms)"

definition pychess :: "(board, move) chess_lib" where
  "pychess =
     \<lparr>Board_start = pc_start, Board_fen = pc_Board, fen = pc_fen,
      from_uci = pc_from_uci, uci = pc_uci,
      is_legal = (\<lambda>b. legal (pos b)), push = pc_push, push_raises = pc_push_raises,
      turn = (\<lambda>b. side (pos b)),
      is_checkmate = pc_is_checkmate, is_stalemate = pc_is_stalemate,
      is_insufficient_material = pc_is_insufficient_material,
      is_repetition = pc_is_repetition,
      halfmove_clock = (\<lambda>b. halfmoves (pos b)),
      pgn_str = pc_pgn_str\<rparr>"

subsection \<open>Well-formed positions\<close>

text \<open>
  The positions on which the model is exact as text: the board has its 64 squares, and the
  castling rights and the en passant square are what \<open>fen()\<close> prints of them.
\<close>

definition shaped :: "piece option list list \<Rightarrow> bool" where
  "shaped rs \<longleftrightarrow> length rs = 8 \<and> list_all (\<lambda>row. length row = 8) rs"

definition wf_position :: "position \<Rightarrow> bool" where
  \<comment> \<open>eight ranks of eight squares, castling rights and en passant square as the
      library shows them, move number from 1\<close>
  "wf_position p \<longleftrightarrow> shaped (ranks p) \<and> norm p = p \<and> 1 \<le> fullmoves p"

definition wf_board :: "board \<Rightarrow> bool" where
  "wf_board b = wf_position (pos b)"

section \<open>The specification's words\<close>

fun replay_legal :: "('b, 'm) chess_lib \<Rightarrow> 'b \<Rightarrow> string list \<Rightarrow> 'b option" where
  \<comment> \<open>Replaying a move log: each entry is parsed, is among the legal moves of the position
      reached so far, and is applied to it. \<open>None\<close> when an entry is not.\<close>
  "replay_legal L board [] = Some board"
| "replay_legal L board (move_uci # rest) =
     (case from_uci L move_uci of
        None \<Rightarrow> None
      | Some move \<Rightarrow>
          if is_legal L board move then replay_legal L (push L board move) rest else None)"

definition spec_terminal_status ::
  "('b, 'm) chess_lib \<Rightarrow> 'b \<Rightarrow> bool \<Rightarrow> GameStatus option" where
  \<comment> \<open>The status the specification gives a position reached by a ply of the side
      \<open>mover\<close> (white is \<open>True\<close>): checkmate is a win for the side that just moved;
      stalemate, insufficient material, repetition and the 75-move rule are draws.\<close>
  "spec_terminal_status L board mover =
     (if is_checkmate L board then Some (if mover then WHITE_WON else BLACK_WON)
      else if is_stalemate L board \<or> is_insufficient_material L board
              \<or> is_repetition L board 3 \<or> 150 \<le> halfmove_clock L board
      then Some DRAW
      else None)"

definition rows_of_difficulty :: "db \<Rightarrow> PuzzleDifficulty \<Rightarrow> UserPuzzle list \<Rightarrow> UserPuzzle list" where
  \<comment> \<open>the stat rows whose puzzle exists and has the difficulty \<open>diff\<close>\<close>
  "rows_of_difficulty d diff rows =
     filter (\<lambda>up. case get_puzzle d (puzzle_id up) of
                     None \<Rightarrow> False
                   | Some puzzle \<Rightarrow> difficulty puzzle = diff) rows"

definition consistent :: "('b, 'm) chess_lib \<Rightarrow> GameSession \<Rightarrow> bool" where
  \<comment> \<open>Replaying the session's move log from the starting position gives a position whose
      encoding is the stored one.\<close>
  "consistent L s =
     (case replay_legal L (Board_start L) (move_history s) of
        None \<Rightarrow> False
      | Some board \<Rightarrow> fen L board = current_fen s)"

text \<open>
  What the session invariant needs of the two external parts, and the stores the
  services can reach.
\<close>

definition lib_contract_on :: "('b, 'm) chess_lib \<Rightarrow> ('b \<Rightarrow> bool) \<Rightarrow> bool" where
  \<comment> \<open>What the services need of the rules library, for a class \<open>W\<close> of well-formed
      boards: the starting board is well-formed, and legal moves keep boards so; a
      well-formed board's encoding, when it parses, parses to a well-formed board with the
      same encoding; and well-formed boards with the same encoding have the same legal
      moves, which lead to boards with the same encoding.\<close>
  "lib_contract_on L W \<longleftrightarrow>
     W (Board_start L)
     \<and> (\<forall>b m. W b \<and> is_legal L b m \<longrightarrow> W (push L b m))
     \<and> (\<forall>b b'. W b \<and> Board_fen L (fen L b) = Some b' \<longrightarrow> W b' \<and> fen L b' = fen L b)
     \<and> (\<forall>b b' m. W b \<and> W b' \<and> fen L b = fen L b' \<and> is_legal L b m \<longrightarrow>
           is_legal L b' m \<and> fen L (push L b m) = fen L (push L b' m))"

definition lib_contract :: "('b, 'm) chess_lib \<Rightarrow> bool" where
  "lib_contract L \<longleftrightarrow> (\<exists>W. lib_contract_on L W)"

definition well_replayed :: "('b, 'm) chess_lib \<Rightarrow> ('b \<Rightarrow> bool) \<Rightarrow> GameSession \<Rightarrow> bool" where
  \<comment> \<open>\<open>consistent\<close>, with the board the log replays to well-formed\<close>
  "well_replayed L W s \<longleftrightarrow>
     (\<exists>B. replay_legal L (Board_start L) (move_history s) = Some B \<and> W B
          \<and> fen L B = current_fen s)"

definition engine_sound :: "('b, 'm) chess_lib \<Rightarrow> ('b \<Rightarrow> 'm engine_reply) \<Rightarrow> bool" where
  \<comment> \<open>A move the engine gives is legal on the board it was asked about, and its text
      parses back to it.\<close>
  "engine_sound L eng \<longleftrightarrow>
     (\<forall>b m. eng b = BestMove m \<longrightarrow> is_legal L b m \<and> from_uci L (uci L m) = Some m)"

inductive reachable :: "('b, 'm) chess_lib \<Rightarrow> db \<Rightarrow> bool" for L :: "('b, 'm) chess_lib" where
  no_sessions: "sessions d = [] \<Longrightarrow> reachable L d"
| created: "reachable L d \<Longrightarrow> reachable L (fst (create_game L now d white black is_bot_game))"
| created_api:
    "reachable L d \<Longrightarrow>
     reachable L (fst (api_create_game L cfg configure_ok now d game_data))"
| moved:
    "reachable L d \<Longrightarrow> engine_sound L eng \<Longrightarrow>
     reachable L (fst (make_move L eng now d g move_uci))"
| undone: "reachable L d \<Longrightarrow> reachable L (fst (undo_move L now d g num_moves))"
| attempted: "reachable L d \<Longrightarrow> reachable L (fst (attempt_puzzle L now d p move_uci user))"

section \<open>Stores, engines and requests used in the examples\<close>

definition default_recovery :: RecoveryConfig where
  "default_recovery = \<lparr>enabled = True, max_retries = 5\<rparr>"

definition db_empty :: db where
  "db_empty = \<lparr>games = [], sessions = [], puzzles = [], user_puzzles = []\<rparr>"

definition bot_request :: GameCreate where
  "bot_request = \<lparr>gc_white_player_id = Some 1, gc_black_player_id = Some 2,
                   gc_is_bot_game = True, gc_bot_difficulty = Some 10\<rparr>"

definition db_bot :: db where
  "db_bot = fst (api_create_game pychess default_recovery (\<lambda>attempt. True) (\<lambda>attempt. 100)
                   db_empty bot_request)"

definition db_over :: db where
  \<comment> \<open>the bot game after it was drawn\<close>
  "db_over = db_bot\<lparr>games := map (\<lambda>x. x\<lparr>status := DRAW, ended_at := Some 200,
                           pgn := Some []\<rparr>) (games db_bot)\<rparr>"

definition no_engine :: "board \<Rightarrow> move engine_reply" where
  "no_engine b = NoMove"

definition start_fen :: string where
  "start_fen = ''rnbqkbnr/pppppppp/8/8/8/8/PPPPPPPP/RNBQKBNR w KQkq - 0 1''"

definition db_puzzles :: db where
  \<comment> \<open>puzzle 1: a solution that can be played from its position; puzzle 2: a solution whose
      first move is not legal there; puzzle 3: no solution stored; puzzle 5: a solution
      whose second move leaves a square the first has emptied; the user 7 has failed
      puzzle 1 once\<close>
  "db_puzzles =
     \<lparr>games = [], sessions = [],
      puzzles =
        [\<lparr>id_puzzle = 1, puzzle_fen = start_fen, moves = Some [''e2e4'', ''e7e5''],
          difficulty = EASY\<rparr>,
         \<lparr>id_puzzle = 2, puzzle_fen = start_fen, moves = Some [''e7e5'', ''g1f3''],
          difficulty = HARD\<rparr>,
         \<lparr>id_puzzle = 3, puzzle_fen = start_fen, moves = None, difficulty = EASY\<rparr>,
         \<lparr>id_puzzle = 5, puzzle_fen = start_fen, moves = Some [''e2e4'', ''e2e3''],
          difficulty = MEDIUM\<rparr>],
      user_puzzles =
        [\<lparr>id_up = 1, user_id = 7, puzzle_id = 1, solved = 0, failed = 1,
          best_time_seconds = None, last_attempted_at = Some 50\<rparr>]\<rparr>"

definition book_moves :: "move list" where
  \<comment> \<open>\<open>e7e5\<close>, \<open>b8c6\<close>, \<open>g8f6\<close>\<close>
  "book_moves = [Move (4, 6) (4, 4) None, Move (1, 7) (2, 5) None, Move (6, 7) (5, 5) None]"

definition book_engine :: "board \<Rightarrow> move engine_reply" where
  \<comment> \<open>an engine that answers with the first move of its book that is legal\<close>
  "book_engine b =
     (case find (legal (pos b)) book_moves of None \<Rightarrow> NoMove | Some m \<Rightarrow> BestMove m)"

definition bot_game :: Game where
  "bot_game = \<lparr>id_game = 1, white_player_id = Some 1, black_player_id = None,
                pgn = None, status = IN_PROGRESS, ended_at = None\<rparr>"

definition db_pre_mate :: db where
  \<comment> \<open>the bot game after 1. e4 e5 2. Bc4 Nc6 3. Qh5 Nf6\<close>
  "db_pre_mate =
     \<lparr>games = [bot_game],
      sessions =
        [\<lparr>id_session = 1, game_id = 1,
          current_fen = ''r1bqkb1r/pppp1ppp/2n2n2/4p2Q/2B1P3/8/PPPP1PPP/RNB1K1NR w KQkq - 4 4'',
          move_history = [''e2e4'', ''e7e5'', ''f1c4'', ''b8c6'', ''d1h5'', ''g8f6''],
          last_move_at = 103, created_at = 100\<rparr>],
      puzzles = [], user_puzzles = []\<rparr>"

definition mate_fen :: string where
  "mate_fen = ''r1bqkb1r/pppp1Qpp/2n2n2/4p3/2B1P3/8/PPPP1PPP/RNB1K1NR b KQkq - 0 4''"

definition db_mated :: db where
  \<comment> \<open>the same game after 4. Qxf7 mate\<close>
  "db_mated =
     \<lparr>games =
        [bot_game\<lparr>status := WHITE_WON, ended_at := Some 104,
           pgn := Some ''e2e4 e7e5 f1c4 b8c6 d1h5 g8f6 h5f7''\<rparr>],
      sessions =
        [\<lparr>id_session = 1, game_id = 1, current_fen = mate_fen,
          move_history = [''e2e4'', ''e7e5'', ''f1c4'', ''b8c6'', ''d1h5'', ''g8f6'', ''h5f7''],
          last_move_at = 104, created_at = 100\<rparr>],
      puzzles = [], user_puzzles = []\<rparr>"

definition db_corrupt :: db where
  \<comment> \<open>a log whose fourth move, \<open>f7f6\<close>, is not legal where it stands: the pawn is pinned
      to its king by the queen on h5\<close>
  "db_corrupt =
     \<lparr>games = [bot_game],
      sessions =
        [\<lparr>id_session = 1, game_id = 1,
          current_fen = ''rnbqkbnr/pppp2pp/5p2/4p2Q/4P3/P7/1PPP1PPP/RNB1KBNR b KQkq - 0 3'',
          move_history = [''e2e4'', ''e7e5'', ''d1h5'', ''f7f6'', ''a2a3''],
          last_move_at = 103, created_at = 100\<rparr>],
      puzzles = [], user_puzzles = []\<rparr>"

definition pre_mate_board :: board where
  "pre_mate_board = the (pc_Board
     ''r1bqkb1r/pppp1ppp/2n2n2/4p2Q/2B1P3/8/PPPP1PPP/RNB1K1NR w KQkq - 4 4'')"

definition mate_board :: board where
  "mate_board = pc_push pre_mate_board (Move (7, 4) (5, 6) None)"

definition fool_engine :: "board \<Rightarrow> move engine_reply" where
  \<comment> \<open>an engine that always answers \<open>d8h4\<close>\<close>
  "fool_engine b = BestMove (Move (3, 7) (7, 3) None)"

definition fool_fen :: string where
  "fool_fen = ''rnbqkbnr/pppp1ppp/8/4p3/8/5P2/PPPPP1PP/RNBQKBNR w KQkq - 0 2''"

definition db_fool :: db where
  \<comment> \<open>the bot game after 1. f3 e5\<close>
  "db_fool =
     \<lparr>games = [bot_game],
      sessions =
        [\<lparr>id_session = 1, game_id = 1, current_fen = fool_fen,
          move_history = [''f2f3'', ''e7e5''], last_move_at = 101, created_at = 100\<rparr>],
      puzzles = [], user_puzzles = []\<rparr>"

definition fool_board :: board where
  "fool_board = the (pc_Board fool_fen)"

definition fool_after :: board where
  "fool_after = pc_push fool_board (Move (6, 1) (6, 3) None)"

definition fool_mate :: board where
  "fool_mate = pc_push fool_after (Move (3, 7) (7, 3) None)"

definition db_pvp :: db where
  \<comment> \<open>a game between two players, just created\<close>
  "db_pvp = fst (create_game pychess 100 db_empty (Some 1) (Some 2) False)"

definition e4_board :: board where
  "e4_board = pc_push pc_start (Move (4, 1) (4, 3) None)"

definition e4_e5_fen :: string where
  "e4_e5_fen = ''rnbqkbnr/pppp1ppp/8/4p3/4P3/8/PPPP1PPP/RNBQKBNR w KQkq - 0 2''"

definition db_times :: db where
  \<comment> \<open>the user 7 has solved puzzle 1 with a recorded best time of 0.0 seconds and
      puzzle 2 with one of 2.5 seconds\<close>
  "db_times =
     db_puzzles\<lparr>user_puzzles :=
       [\<lparr>id_up = 1, user_id = 7, puzzle_id = 1, solved = 1, failed = 0,
         best_time_seconds = Some 0, last_attempted_at = Some 50\<rparr>,
        \<lparr>id_up = 2, user_id = 7, puzzle_id = 2, solved = 1, failed = 2,
         best_time_seconds = Some (5 / 2), last_attempted_at = Some 60\<rparr>]\<rparr>"

definition db_run :: db where
  \<comment> \<open>the bot game after 1. e4 e5 2. Bc4 Nc6, with the last ply taken back\<close>
  "db_run =
     fst (undo_move pychess 103
       (fst (make_move pychess book_engine 102
          (fst (make_move pychess book_engine 101 db_bot 1 ''e2e4'')) 1 ''f1c4'')) 1 1)"

section \<open>Store lemmas\<close>

lemma fold_max_ge: "(a::int) \<le> fold max ids a"
proof (induction ids arbitrary: a)
  case Nil
  show ?case by simp
next
  case (Cons x xs)
  have "a \<le> max x a" by simp
  also have "\<dots> \<le> fold max xs (max x a)" by (rule Cons.IH)
  finally show ?case by simp
qed

lemma fold_max_mem: "x \<in> set ids \<Longrightarrow> (x::int) \<le> fold max ids a"
proof (induction ids arbitrary: a)
  case Nil
  then show ?case by simp
next
  case (Cons y ys)
  show ?case
  proof (cases "x = y")
    case True
    have "x \<le> max y a" using True by simp
    also have "\<dots> \<le> fold max ys (max y a)" by (rule fold_max_ge)
    finally show ?thesis by simp
  next
    case False
    with Cons.prems have "x \<in> set ys" by simp
    then show ?thesis using Cons.IH by simp
  qed
qed

lemma fresh_id_greater: "x \<in> set ids \<Longrightarrow> x < fresh_id ids"
  using fold_max_mem[of x ids 0] by (simp add: fresh_id_def)

lemma find_append_fresh:
  "\<forall>x \<in> set xs. \<not> P x \<Longrightarrow> P y \<Longrightarrow> find P (xs @ [y]) = Some y"
  by (induction xs) auto

lemma get_game_created:
  "get_game (fst (create_game L now d w b is_bot)) (id_game (snd (create_game L now d w b is_bot)))
     = Some (snd (create_game L now d w b is_bot))"
proof -
  have "\<forall>x \<in> set (games d). id_game x \<noteq> fresh_id (map id_game (games d))"
    using fresh_id_greater[of _ "map id_game (games d)"] by fastforce
  then show ?thesis
    by (simp add: create_game_def get_game_def Let_def find_append_fresh)
qed

section \<open>The decorator on functions that commit nothing before they raise\<close>

lemma recover_attempts_raise:
  "\<forall>k. func k d = (d, Raise) \<Longrightarrow> recover_attempts n k func d = (d, Raise)"
  by (induction n arbitrary: k) simp_all

lemma recover_same:
  assumes "0 < max_retries cfg"
      and "(\<exists>d1 x. func 1 d = (d1, Return x)) \<or> (\<forall>k. func k d = (d, Raise))"
  shows "recover cfg func d = func 1 d"
proof -
  obtain n where n: "max_retries cfg = Suc n"
    using assms(1) by (cases "max_retries cfg") simp_all
  from assms(2) have "recover_attempts (Suc n) 1 func d = func 1 d"
  proof
    assume "\<exists>d1 x. func 1 d = (d1, Return x)"
    then show ?thesis by auto
  next
    assume r: "\<forall>k. func k d = (d, Raise)"
    then have "recover_attempts n (1 + 1) func d = (d, Raise)"
      by (rule recover_attempts_raise)
    with r show ?thesis by simp
  qed
  then show ?thesis by (simp add: recover_def n)
qed

lemma recover_attempts_invariant:
  assumes "\<And>k d1. I d1 \<Longrightarrow> I (fst (func k d1))"
  shows "I d \<Longrightarrow> I (fst (recover_attempts n k func d))"
proof (induction n arbitrary: k d)
  case 0
  then show ?case by simp
next
  case (Suc n)
  obtain d1 x where run: "func k d = (d1, x)" by (cases "func k d") auto
  have "I (fst (func k d))" using Suc.prems by (rule assms)
  then have d1: "I d1" using run by simp
  show ?case
  proof (cases x)
    case (Return y)
    with run d1 show ?thesis by simp
  next
    case Raise
    with run Suc.IH[OF d1, of "k + 1"] show ?thesis by simp
  qed
qed

lemma recover_invariant:
  assumes "\<And>k d1. I d1 \<Longrightarrow> I (fst (func k d1))" and "I d"
  shows "I (fst (recover cfg func d))"
  using assms recover_attempts_invariant[of I func d "max_retries cfg" 1]
  by (simp add: recover_def)

section \<open>Creating a bot game\<close>

lemma api_create_game_run_bot:
  assumes "gc_is_bot_game game_data"
      and "api_create_game_run L configure_ok now d game_data = (d1, x)"
  shows "\<exists>game. games d1 = games d @ [game] \<and> black_player_id game = None
           \<and> get_game d1 (id_game game) = Some game
           \<and> (x = Return game \<or> x = Raise)"
proof -
  let ?c = "create_game L now d (gc_white_player_id game_data) None True"
  have d1: "d1 = fst ?c" and x: "x = Return (snd ?c) \<or> x = Raise"
    using assms by (auto simp: api_create_game_run_def Let_def split: prod.splits if_splits)
  have "games (fst ?c) = games d @ [snd ?c]" "black_player_id (snd ?c) = None"
    by (simp_all add: create_game_def Let_def)
  moreover have "get_game (fst ?c) (id_game (snd ?c)) = Some (snd ?c)"
    using get_game_created[of L now d "gc_white_player_id game_data" None True] by simp
  ultimately show ?thesis using d1 x by auto
qed

lemma api_create_game_attempts_bot:
  assumes bot: "gc_is_bot_game game_data"
  shows "recover_attempts n k
           (\<lambda>attempt d1. api_create_game_run L (configure_ok attempt) (now attempt) d1 game_data)
           d = (d', r) \<Longrightarrow>
         \<exists>created. games d' = games d @ created
           \<and> list_all (\<lambda>game. black_player_id game = None) created
           \<and> (\<forall>game. r = Return game \<longrightarrow>
                 created \<noteq> [] \<and> last created = game
                 \<and> get_game d' (id_game game) = Some game)
           \<and> (r = Raise \<longrightarrow> length created = n)"
proof (induction n arbitrary: k d)
  case 0
  then show ?case by simp
next
  case (Suc n)
  let ?run = "\<lambda>attempt d1.
      api_create_game_run L (configure_ok attempt) (now attempt) d1 game_data"
  obtain d1 x where run: "?run k d = (d1, x)" by (cases "?run k d") auto
  from api_create_game_run_bot[OF bot run] obtain game where
    g: "games d1 = games d @ [game]" "black_player_id game = None"
       "get_game d1 (id_game game) = Some game" "x = Return game \<or> x = Raise"
    by blast
  show ?case
  proof (cases x)
    case (Return y)
    with g(4) have y: "y = game" by simp
    from Suc.prems run Return have "d' = d1" "r = Return y" by simp_all
    with g y show ?thesis by simp
  next
    case Raise
    with Suc.prems run have "recover_attempts n (k + 1) ?run d1 = (d', r)" by simp
    from Suc.IH[OF this] obtain created where
      c: "games d' = games d1 @ created"
         "list_all (\<lambda>game. black_player_id game = None) created"
         "\<forall>game. r = Return game \<longrightarrow>
            created \<noteq> [] \<and> last created = game \<and> get_game d' (id_game game) = Some game"
         "r = Raise \<longrightarrow> length created = n"
      by blast
    have "games d' = games d @ (game # created)" using c(1) g(1) by simp
    moreover have "list_all (\<lambda>game. black_player_id game = None) (game # created)"
      using c(2) g(2) by simp
    moreover have "\<forall>y. r = Return y \<longrightarrow>
        game # created \<noteq> [] \<and> last (game # created) = y
        \<and> get_game d' (id_game y) = Some y"
      using c(3) by auto
    moreover have "r = Raise \<longrightarrow> length (game # created) = Suc n"
      using c(4) by simp
    ultimately show ?thesis by blast
  qed
qed

text \<open>
  C7. Every game the endpoint stores for a request with \<open>is_bot_game\<close> set has no black
  player, whatever black player the request names: the endpoint replaces it by \<open>None\<close>
  before it calls the service. The game it returns is the last one it stored. A run in
  which configuring the engine raises has stored its game all the same and is run again
  by the decorator, so that a call that raises has stored one game for each of its runs.
\<close>

theorem api_create_game_bot_black_absent:
  assumes "gc_is_bot_game game_data"
      and "api_create_game L cfg configure_ok now d game_data = (d', r)"
  shows "\<exists>created. games d' = games d @ created
           \<and> list_all (\<lambda>game. black_player_id game = None) created
           \<and> (\<forall>game. r = Return game \<longrightarrow>
                 created \<noteq> [] \<and> last created = game
                 \<and> get_game d' (id_game game) = Some game)
           \<and> (r = Raise \<longrightarrow>
                 length created = (if enabled cfg then max_retries cfg else 1))"
proof (cases "enabled cfg")
  case True
  with assms(2) have "recover_attempts (max_retries cfg) 1
      (\<lambda>attempt d1. api_create_game_run L (configure_ok attempt) (now attempt) d1 game_data)
      d = (d', r)"
    by (simp add: api_create_game_def recover_def)
  from api_create_game_attempts_bot[OF assms(1) this] True show ?thesis by simp
next
  case False
  with assms(2) have "api_create_game_run L (configure_ok 1) (now 1) d game_data = (d', r)"
    by (simp add: api_create_game_def recover_def)
  from api_create_game_run_bot[OF assms(1) this] obtain game where
    g: "games d' = games d @ [game]" "black_player_id game = None"
       "get_game d' (id_game game) = Some game" "r = Return game \<or> r = Raise"
    by blast
  have "games d' = games d @ [game]
        \<and> list_all (\<lambda>game. black_player_id game = None) [game]
        \<and> (\<forall>y. r = Return y \<longrightarrow>
              [game] \<noteq> [] \<and> last [game] = y \<and> get_game d' (id_game y) = Some y)
        \<and> (r = Raise \<longrightarrow> length [game] = (if enabled cfg then max_retries cfg else 1))"
    using g False by auto
  then show ?thesis by blast
qed

lemma db_bot_run:
  "api_create_game pychess default_recovery (\<lambda>attempt. True) (\<lambda>attempt. 100) db_empty
     bot_request
     = (db_bot, Return \<lparr>id_game = 1, white_player_id = Some 1, black_player_id = None,
                        pgn = None, status = IN_PROGRESS, ended_at = None\<rparr>)"
  by code_simp

lemma db_bot_raise:
  "snd (api_create_game pychess default_recovery (\<lambda>attempt. False) (\<lambda>attempt. 100 + attempt)
          db_empty bot_request) = Raise"
  by code_simp

theorem api_create_game_bot_witness:
  "gc_is_bot_game bot_request
   \<and> gc_black_player_id bot_request = Some 2
   \<and> (\<exists>game. games db_bot = [game] \<and> black_player_id game = None)
   \<and> length (games (fst (api_create_game pychess default_recovery (\<lambda>attempt. False)
                           (\<lambda>attempt. 100 + attempt) db_empty bot_request))) = 5
   \<and> list_all (\<lambda>game. black_player_id game = None)
        (games (fst (api_create_game pychess default_recovery (\<lambda>attempt. False)
                       (\<lambda>attempt. 100 + attempt) db_empty bot_request)))"
proof -
  let ?failed = "api_create_game pychess default_recovery (\<lambda>attempt. False)
                   (\<lambda>attempt. 100 + attempt) db_empty bot_request"
  have b: "gc_is_bot_game bot_request" "gc_black_player_id bot_request = Some 2"
    by (simp_all add: bot_request_def)
  have e: "games db_empty = []" by (simp add: db_empty_def)
  have c: "enabled default_recovery" "max_retries default_recovery = 5"
    by (simp_all add: default_recovery_def)
  have l: "length (games db_bot) = 1" by code_simp
  from api_create_game_bot_black_absent[OF b(1) db_bot_run]
  have "list_all (\<lambda>game. black_player_id game = None) (games db_bot)"
    unfolding e by auto
  with l have 1: "\<exists>game. games db_bot = [game] \<and> black_player_id game = None"
    by (cases "games db_bot") auto
  have f: "?failed = (fst ?failed, Raise)"
    using db_bot_raise by (simp add: prod_eq_iff)
  from api_create_game_bot_black_absent[OF b(1) f]
  have 2: "length (games (fst ?failed)) = 5
           \<and> list_all (\<lambda>game. black_player_id game = None) (games (fst ?failed))"
    unfolding e using c by auto
  from b 1 2 show ?thesis by simp
qed

text \<open>
  The service function on its own does not read \<open>is_bot_game\<close>: it stores the black
  player it is given.
\<close>

lemma create_game_keeps_black:
  "black_player_id (snd (create_game L now d w (Some b) True)) = Some b"
  by (simp add: create_game_def Let_def)

section \<open>Moves that are refused\<close>

text \<open>
  C4. A move that does not parse is answered \<open>Invalid move format\<close>, a move that is not
  legal in the stored position \<open>Invalid move\<close> (the two messages of the InvalidMove
  error), a move in a game that is not in progress \<open>Game is not in progress\<close> (the
  InvalidState error). Each time the store is returned as it was and the engine is not
  asked.
\<close>

theorem make_move_refused_unchanged:
  "(get_game d g = Some game \<and> status game = IN_PROGRESS
      \<and> get_game_session d g = Some session
      \<and> Board_fen L (current_fen session) = Some board \<longrightarrow>
      (from_uci L move_uci = None \<longrightarrow>
         make_move L eng now d g move_uci
           = (d, Return (False, ''Invalid move format'', None, None), []))
      \<and> (\<forall>move. from_uci L move_uci = Some move \<and> \<not> is_legal L board move \<longrightarrow>
         make_move L eng now d g move_uci
           = (d, Return (False, ''Invalid move'', None, None), [])))
   \<and> (get_game d g = Some game \<and> status game \<noteq> IN_PROGRESS \<longrightarrow>
         make_move L eng now d g move_uci
           = (d, Return (False, ''Game is not in progress'', None, None), []))"
  by (simp add: make_move_def)

lemma db_bot_game:
  "get_game db_bot 1 = Some \<lparr>id_game = 1, white_player_id = Some 1, black_player_id = None,
     pgn = None, status = IN_PROGRESS, ended_at = None\<rparr>"
  by code_simp

lemma db_bot_session:
  "get_game_session db_bot 1 = Some \<lparr>id_session = 1, game_id = 1, current_fen = start_fen,
     move_history = [], last_move_at = 100, created_at = 100\<rparr>"
  by code_simp

lemma start_fen_board: "Board_fen pychess start_fen = Some pc_start"
  by code_simp

theorem make_move_refused_witness:
  "make_move pychess no_engine 101 db_bot 1 ''e2''
     = (db_bot, Return (False, ''Invalid move format'', None, None), [])
   \<and> make_move pychess no_engine 101 db_bot 1 ''e2e5''
     = (db_bot, Return (False, ''Invalid move'', None, None), [])
   \<and> make_move pychess no_engine 201 db_over 1 ''e2e4''
     = (db_over, Return (False, ''Game is not in progress'', None, None), [])"
proof -
  have 1: "from_uci pychess ''e2'' = None" by code_simp
  have 2: "from_uci pychess ''e2e5'' = Some (Move (4, 1) (4, 4) None)" by code_simp
  have 3: "\<not> is_legal pychess pc_start (Move (4, 1) (4, 4) None)" by code_simp
  have 4: "get_game db_over 1 = Some \<lparr>id_game = 1, white_player_id = Some 1,
     black_player_id = None, pgn = Some [], status = DRAW, ended_at = Some 200\<rparr>"
    by code_simp
  let ?game = "\<lparr>id_game = 1, white_player_id = Some 1, black_player_id = None,
     pgn = None, status = IN_PROGRESS, ended_at = None\<rparr>"
  let ?session = "\<lparr>id_session = 1, game_id = 1, current_fen = start_fen,
     move_history = [], last_move_at = 100, created_at = 100\<rparr>"
  have a: "make_move pychess no_engine 101 db_bot 1 ''e2''
     = (db_bot, Return (False, ''Invalid move format'', None, None), [])"
    using make_move_refused_unchanged[where d = db_bot and g = 1 and game = ?game
        and session = ?session and L = pychess and board = pc_start
        and move_uci = "''e2''" and eng = no_engine and now = 101]
      db_bot_game db_bot_session start_fen_board 1
    by simp
  have b: "make_move pychess no_engine 101 db_bot 1 ''e2e5''
     = (db_bot, Return (False, ''Invalid move'', None, None), [])"
    using make_move_refused_unchanged[where d = db_bot and g = 1 and game = ?game
        and session = ?session and L = pychess and board = pc_start
        and move_uci = "''e2e5''" and eng = no_engine and now = 101]
      db_bot_game db_bot_session start_fen_board 2 3
    by simp
  have c: "make_move pychess no_engine 201 db_over 1 ''e2e4''
     = (db_over, Return (False, ''Game is not in progress'', None, None), [])"
    using make_move_refused_unchanged[where d = db_over and g = 1 and L = pychess
        and game = "\<lparr>id_game = 1, white_player_id = Some 1, black_player_id = None,
          pgn = Some [], status = DRAW, ended_at = Some 200\<rparr>"
        and session = ?session and board = pc_start
        and move_uci = "''e2e4''" and eng = no_engine and now = 201] 4
    by simp
  from a b c show ?thesis by simp
qed

section \<open>Puzzle attempts\<close>

lemma update_user_stats_puzzles [simp]:
  "puzzles (update_user_stats now d u p success) = puzzles d"
  by (simp add: update_user_stats_def Let_def split: option.splits)

lemma attempt_puzzle_puzzles [simp]:
  "puzzles (fst (attempt_puzzle L now d p move_uci user)) = puzzles d"
  by (simp add: attempt_puzzle_def Let_def split_beta split: option.splits)

lemma replay_solution_bounds:
  "i \<le> snd (replay_solution L board i ms) \<and> snd (replay_solution L board i ms) \<le> i + length ms"
proof (induction ms arbitrary: board i)
  case Nil
  show ?case by simp
next
  case (Cons sol_move rest)
  show ?case
  proof (cases "from_uci L sol_move")
    case None
    then show ?thesis by simp
  next
    case (Some move)
    show ?thesis
    proof (cases "is_legal L board move")
      case True
      with Some Cons.IH[where board = "push L board move" and i = "i + 1"]
      show ?thesis by simp
    next
      case False
      with Some show ?thesis by simp
    qed
  qed
qed

text \<open>
  C10. Where the attempt ends before the submitted move is compared with the expected
  one (no such puzzle, no or an empty solution, a position that does not parse, a
  solution already played through, a move that does not parse) the call returns, and
  the store, and with it the user's row, is returned as it was.
\<close>

theorem attempt_puzzle_no_comparison_no_stats:
  assumes "get_puzzle d p = None
           \<or> (\<exists>puzzle. get_puzzle d p = Some puzzle
                \<and> (moves puzzle = None \<or> moves puzzle = Some []
                    \<or> Board_fen L (puzzle_fen puzzle) = None
                    \<or> (\<exists>initial ms. moves puzzle = Some ms
                          \<and> Board_fen L (puzzle_fen puzzle) = Some initial
                          \<and> length ms \<le> snd (replay_solution L initial 0 ms))))
           \<or> from_uci L move_uci = None"
  shows "fst (attempt_puzzle L now d p move_uci user) = d
         \<and> (\<exists>reply. snd (attempt_puzzle L now d p move_uci user) = Return reply
               \<and> fst (snd reply) \<notin> {''Correct move!'', ''Incorrect move. Try again!''})"
  using assms
  by (auto simp: attempt_puzzle_def Let_def split_beta split: option.splits)

lemma puzzle1: "get_puzzle db_puzzles 1 = Some \<lparr>id_puzzle = 1, puzzle_fen = start_fen,
     moves = Some [''e2e4'', ''e7e5''], difficulty = EASY\<rparr>"
  by code_simp

lemma puzzle2: "get_puzzle db_puzzles 2 = Some \<lparr>id_puzzle = 2, puzzle_fen = start_fen,
     moves = Some [''e7e5'', ''g1f3''], difficulty = HARD\<rparr>"
  by code_simp

lemma puzzle1_progress: "snd (replay_solution pychess pc_start 0 [''e2e4'', ''e7e5'']) = 2"
  by code_simp

theorem attempt_puzzle_no_stats_witness:
  "fst (attempt_puzzle pychess 60 db_puzzles 1 ''e2e4'' (Some 7)) = db_puzzles
   \<and> fst (attempt_puzzle pychess 60 db_puzzles 2 ''e7'' (Some 7)) = db_puzzles
   \<and> fst (attempt_puzzle pychess 60 db_puzzles 3 ''e2e4'' (Some 7)) = db_puzzles
   \<and> fst (attempt_puzzle pychess 60 db_puzzles 4 ''e2e4'' (Some 7)) = db_puzzles"
proof -
  have 3: "get_puzzle db_puzzles 3 = Some \<lparr>id_puzzle = 3, puzzle_fen = start_fen,
     moves = None, difficulty = EASY\<rparr>" by code_simp
  have 4: "get_puzzle db_puzzles 4 = None" by code_simp
  have 5: "from_uci pychess ''e7'' = None" by code_simp
  have a: "fst (attempt_puzzle pychess 60 db_puzzles 1 ''e2e4'' (Some 7)) = db_puzzles"
    using attempt_puzzle_no_comparison_no_stats[where d = db_puzzles and p = 1
        and L = pychess and move_uci = "''e2e4''" and now = 60 and user = "Some 7"]
      puzzle1 puzzle1_progress start_fen_board
    by simp
  have b: "fst (attempt_puzzle pychess 60 db_puzzles 2 ''e7'' (Some 7)) = db_puzzles"
    using attempt_puzzle_no_comparison_no_stats[where d = db_puzzles and p = 2
        and L = pychess and move_uci = "''e7''" and now = 60 and user = "Some 7"] 5
    by simp
  have c: "fst (attempt_puzzle pychess 60 db_puzzles 3 ''e2e4'' (Some 7)) = db_puzzles"
    using attempt_puzzle_no_comparison_no_stats[where d = db_puzzles and p = 3
        and L = pychess and move_uci = "''e2e4''" and now = 60 and user = "Some 7"] 3
    by simp
  have d: "fst (attempt_puzzle pychess 60 db_puzzles 4 ''e2e4'' (Some 7)) = db_puzzles"
    using attempt_puzzle_no_comparison_no_stats[where d = db_puzzles and p = 4
        and L = pychess and move_uci = "''e2e4''" and now = 60 and user = "Some 7"] 4
    by simp
  from a b c d show ?thesis by simp
qed

text \<open>
  An attempt stores no progress. Each attempt replays the puzzle's own solution from the
  puzzle's position, as far as its moves are legal, and takes the number of moves
  replayed for the progress made. A solution that can be played through is replayed to
  its end, whatever was submitted before.
\<close>

lemma replay_legal_replay_solution:
  "replay_legal L board ms = Some final \<Longrightarrow>
   replay_solution L board i ms = (final, i + length ms)"
  by (induction ms arbitrary: board i) (auto split: option.splits if_splits)

lemma attempt_puzzle_playable_solution:
  assumes "get_puzzle d p = Some puzzle"
      and "moves puzzle = Some ms" and "ms \<noteq> []"
      and "Board_fen L (puzzle_fen puzzle) = Some initial"
      and "replay_legal L initial ms = Some final"
  shows "attempt_puzzle L now d p move_uci user
           = (d, Return (False, ''Puzzle already solved'', None, True))"
  using assms replay_legal_replay_solution[OF assms(5), of 0]
  by (simp add: attempt_puzzle_def Let_def)

text \<open>
  Where the replay stops before the end, the submitted move that equals the move it
  stopped at is pushed on the board reached, although it was just found not to be legal
  there. For puzzle 5 that move leaves an empty square: \<open>push\<close> raises, and the call
  raises with nothing recorded.
\<close>

lemma attempt_puzzle_push_raises:
  "attempt_puzzle pychess 60 db_puzzles 5 ''e2e3'' (Some 7) = (db_puzzles, Raise)"
  by code_simp

lemma attempt_puzzle_raises:
  "snd (attempt_puzzle L now d p move_uci user) = Raise \<Longrightarrow>
   attempt_puzzle L now1 d p move_uci user = (d, Raise)"
  by (auto simp: attempt_puzzle_def Let_def split_beta split: option.splits if_splits)

lemma attempt_puzzle_recovered:
  assumes "0 < max_retries cfg"
  shows "recover cfg (\<lambda>attempt d1. attempt_puzzle L (now attempt) d1 p move_uci user) d
           = attempt_puzzle L (now 1) d p move_uci user"
proof (rule recover_same[OF assms])
  show "(\<exists>d1 x. attempt_puzzle L (now 1) d p move_uci user = (d1, Return x))
        \<or> (\<forall>k. attempt_puzzle L (now k) d p move_uci user = (d, Raise))"
  proof (cases "snd (attempt_puzzle L (now 1) d p move_uci user)")
    case (Return x)
    then show ?thesis by (metis prod.collapse)
  next
    case Raise
    then show ?thesis using attempt_puzzle_raises by blast
  qed
qed

lemma attempt_puzzle_expected_move:
  "attempt_puzzle pychess 60 db_puzzles 2 ''e7e5'' None
     = (db_puzzles, Return (True, ''Correct move!'', Some ''g1f3'', False))"
  by code_simp

text \<open>
  C2 does not hold of the code. Puzzle 1 has the solution \<open>e2e4 e7e5\<close>, which can be
  played from its position. Its first move, submitted first, is answered
  \<open>Puzzle already solved\<close>, not correct, and so is its second move submitted after it;
  neither attempt is counted for the user.
\<close>

theorem attempt_puzzle_solution_moves_refused:
  "attempt_puzzle pychess 60 db_puzzles 1 ''e2e4'' (Some 7)
     = (db_puzzles, Return (False, ''Puzzle already solved'', None, True))
   \<and> attempt_puzzle pychess 61 db_puzzles 1 ''e7e5'' (Some 7)
     = (db_puzzles, Return (False, ''Puzzle already solved'', None, True))"
  by code_simp

section \<open>Rows after a commit\<close>

lemma find_replaced:
  "find (\<lambda>x. key x = k) xs = Some y \<Longrightarrow> key y' = k \<Longrightarrow>
   find (\<lambda>x. key x = k) (map (\<lambda>x. if key x = key y' then y' else x) xs) = Some y'"
  by (induction xs) (auto split: if_splits)

lemma get_game_commit_game:
  "get_game d g = Some game \<Longrightarrow> id_game game' = g \<Longrightarrow>
   get_game (commit_game d game') g = Some game'"
  using find_replaced[of id_game g "games d" game game']
  by (simp add: get_game_def commit_game_def)

lemma get_game_id: "get_game d g = Some game \<Longrightarrow> id_game game = g"
  by (auto simp: get_game_def find_Some_iff)

lemma get_game_commit_session [simp]: "get_game (commit_session d s) g = get_game d g"
  by (simp add: get_game_def commit_session_def)

lemma get_game_session_commit_game [simp]:
  "get_game_session (commit_game d x) g = get_game_session d g"
  by (simp add: get_game_session_def commit_game_def)

lemma sessions_commit_game [simp]: "sessions (commit_game d x) = sessions d"
  by (simp add: commit_game_def)

lemma filter_map_same:
  "\<forall>x \<in> set xs. P (f x) = P x \<Longrightarrow> filter P (map f xs) = map f (filter P xs)"
  by (induction xs) auto

lemma latest_mem: "latest s xs \<in> set (s # xs)"
  by (induction xs arbitrary: s) auto

lemma latest_map:
  "\<forall>x \<in> set (s # xs). created_at (f x) = created_at x \<Longrightarrow>
   latest (f s) (map f xs) = f (latest s xs)"
  by (induction xs arbitrary: s) auto

lemma get_game_session_mem:
  "get_game_session d g = Some s \<Longrightarrow> s \<in> set (sessions d) \<and> game_id s = g"
proof -
  assume a: "get_game_session d g = Some s"
  then obtain x xs where f: "filter (\<lambda>x. game_id x = g) (sessions d) = x # xs"
    and s: "s = latest x xs"
    by (auto simp: get_game_session_def split: list.splits)
  have "s \<in> set (filter (\<lambda>x. game_id x = g) (sessions d))"
    using latest_mem[of x xs] f s by simp
  then show ?thesis by simp
qed

lemma get_game_session_commit_session:
  assumes s: "get_game_session d g = Some s"
      and pk: "distinct (map id_session (sessions d))"
      and same: "id_session s' = id_session s" "game_id s' = game_id s"
                "created_at s' = created_at s"
  shows "get_game_session (commit_session d s') g = Some s'"
proof -
  let ?f = "\<lambda>x. if id_session x = id_session s' then s' else x"
  have mem: "s \<in> set (sessions d)" and g: "game_id s = g"
    using get_game_session_mem[OF s] by simp_all
  have only: "x = s" if "x \<in> set (sessions d)" "id_session x = id_session s" for x
    using that mem pk by (meson distinct_map inj_onD)
  have keep: "game_id (?f x) = game_id x \<and> created_at (?f x) = created_at x"
    if "x \<in> set (sessions d)" for x
    using that only same by auto
  have fs: "?f s = s'" using same by simp
  obtain x xs where f: "filter (\<lambda>x. game_id x = g) (sessions d) = x # xs"
    and l: "s = latest x xs"
    using s by (auto simp: get_game_session_def split: list.splits)
  have "filter (\<lambda>x. game_id x = g) (map ?f (sessions d))
          = map ?f (filter (\<lambda>x. game_id x = g) (sessions d))"
    using keep by (intro filter_map_same) simp
  then have "filter (\<lambda>x. game_id x = g) (map ?f (sessions d)) = ?f x # map ?f xs"
    using f by simp
  then have 1: "get_game_session (commit_session d s') g = Some (latest (?f x) (map ?f xs))"
    by (simp add: get_game_session_def commit_session_def)
  have 2: "latest (?f x) (map ?f xs) = ?f (latest x xs)"
  proof (rule latest_map)
    have "set (x # xs) \<subseteq> set (sessions d)"
      using f by (metis filter_is_subset set_filter)
    then show "\<forall>y \<in> set (x # xs). created_at (?f y) = created_at y"
      using keep by blast
  qed
  have "?f (latest x xs) = s'" using fs by (simp only: l)
  with 1 2 show ?thesis by simp
qed

section \<open>Undo\<close>

lemma py_push_legal: "is_legal L board move \<Longrightarrow> py_push L board move = Some (push L board move)"
  by (simp add: py_push_def)

lemma replay_legal_replay_moves:
  "replay_legal L board us = Some b \<Longrightarrow> replay_moves L board us = Return (Some b)"
  by (induction us arbitrary: board) (auto simp: py_push_legal split: option.splits if_splits)

lemma replay_moves_Return_None:
  "replay_moves L board us = Return None \<Longrightarrow> \<exists>u \<in> set us. from_uci L u = None"
  by (induction us arbitrary: board) (auto split: option.splits)

lemma replay_moves_unchecked:
  "\<forall>u \<in> set us. from_uci L u \<noteq> None \<Longrightarrow> \<forall>b m. \<not> push_raises L b m \<Longrightarrow>
   \<exists>b. replay_moves L board us = Return (Some b)"
  by (induction us arbitrary: board) (auto simp: py_push_def split: option.splits)

lemma py_slice_upto_undo:
  "1 \<le> n \<Longrightarrow> n \<le> int (length xs) \<Longrightarrow> py_slice_upto xs (- n) = take (length xs - nat n) xs"
  by (simp add: py_slice_upto_def nat_diff_distrib')

lemma undo_move_raises:
  "snd (undo_move L now d g num_moves) = Raise \<Longrightarrow> undo_move L now1 d g num_moves = (d, Raise)"
  by (auto simp: undo_move_def Let_def split: option.splits if_splits outcome.splits)

text \<open>
  Under the decorator \<open>undo_move\<close> is the function itself: a run that raises has
  committed nothing, and the next run raises again.
\<close>

lemma undo_move_recovered:
  assumes "0 < max_retries cfg"
  shows "recover cfg (\<lambda>attempt d1. undo_move L (now attempt) d1 g num_moves) d
           = undo_move L (now 1) d g num_moves"
proof (rule recover_same[OF assms])
  show "(\<exists>d1 x. undo_move L (now 1) d g num_moves = (d1, Return x))
        \<or> (\<forall>k. undo_move L (now k) d g num_moves = (d, Raise))"
  proof (cases "snd (undo_move L (now 1) d g num_moves)")
    case (Return x)
    then show ?thesis by (metis prod.collapse)
  next
    case Raise
    then show ?thesis using undo_move_raises by blast
  qed
qed

text \<open>
  C3. For a game with a session whose log has \<open>L\<close> entries and \<open>1 \<le> count \<le> L\<close>:
  when the first \<open>L - count\<close> logged moves replay (each legal where it stands) from the
  starting position to a board, \<open>undo_move\<close> succeeds, answers that board's encoding,
  stores it with the log cut to those moves, and leaves the game in progress with no end
  time and no record. Session rows have distinct ids (the primary key).
\<close>

theorem undo_move_replays_prefix:
  assumes game: "get_game d g = Some game"
      and session: "get_game_session d g = Some session"
      and pk: "distinct (map id_session (sessions d))"
      and count: "1 \<le> num_moves" "num_moves \<le> int (length (move_history session))"
      and kept: "kept = take (length (move_history session) - nat num_moves)
                          (move_history session)"
      and replay: "replay_legal L (Board_start L) kept = Some board"
  shows "\<exists>d'. undo_move L now d g num_moves
                 = (d', Return (True, ''Undid '' @ str_int num_moves @ '' move(s)'',
                                Some (fen L board)))
           \<and> get_game_session d' g
                 = Some (session\<lparr>current_fen := fen L board, move_history := kept,
                                  last_move_at := now\<rparr>)
           \<and> get_game d' g
                 = Some (if status game = IN_PROGRESS then game
                         else game\<lparr>status := IN_PROGRESS, ended_at := None, pgn := None\<rparr>)"
proof -
  let ?s1 = "session\<lparr>current_fen := fen L board, move_history := kept, last_move_at := now\<rparr>"
  let ?g1 = "if status game = IN_PROGRESS then game
             else game\<lparr>status := IN_PROGRESS, ended_at := None, pgn := None\<rparr>"
  have slice: "py_slice_upto (move_history session) (- num_moves) = kept"
    using count kept by (simp add: py_slice_upto_undo)
  have moves: "replay_moves L (Board_start L) kept = Return (Some board)"
    using replay by (rule replay_legal_replay_moves)
  have run: "undo_move L now d g num_moves
               = (commit_game (commit_session d ?s1) ?g1,
                  Return (True, ''Undid '' @ str_int num_moves @ '' move(s)'',
                    Some (fen L board)))"
    using game session count slice moves by (simp add: undo_move_def Let_def)
  have s: "get_game_session (commit_game (commit_session d ?s1) ?g1) g = Some ?s1"
    using get_game_session_commit_session[OF session pk, of ?s1] by simp
  have "id_game ?g1 = g" using get_game_id[OF game] by simp
  then have "get_game (commit_game (commit_session d ?s1) ?g1) g = Some ?g1"
    using game by (intro get_game_commit_game) simp_all
  with run s show ?thesis by simp
qed

lemma db_mated_game: "get_game db_mated 1 = Some (bot_game\<lparr>status := WHITE_WON,
     ended_at := Some 104, pgn := Some ''e2e4 e7e5 f1c4 b8c6 d1h5 g8f6 h5f7''\<rparr>)"
  by code_simp

lemma db_mated_session: "get_game_session db_mated 1 = Some \<lparr>id_session = 1, game_id = 1,
     current_fen = mate_fen,
     move_history = [''e2e4'', ''e7e5'', ''f1c4'', ''b8c6'', ''d1h5'', ''g8f6'', ''h5f7''],
     last_move_at = 104, created_at = 100\<rparr>"
  by code_simp

lemma replay_five:
  "map_option (fen pychess)
     (replay_legal pychess pc_start [''e2e4'', ''e7e5'', ''f1c4'', ''b8c6'', ''d1h5''])
     = Some ''r1bqkbnr/pppp1ppp/2n5/4p2Q/2B1P3/8/PPPP1PPP/RNB1K1NR b KQkq - 3 3''"
  by code_simp

theorem undo_move_replays_prefix_witness:
  "\<exists>d'. undo_move pychess 105 db_mated 1 2
            = (d', Return (True, ''Undid 2 move(s)'',
                 Some ''r1bqkbnr/pppp1ppp/2n5/4p2Q/2B1P3/8/PPPP1PPP/RNB1K1NR b KQkq - 3 3''))
      \<and> get_game_session d' 1
            = Some \<lparr>id_session = 1, game_id = 1,
                current_fen = ''r1bqkbnr/pppp1ppp/2n5/4p2Q/2B1P3/8/PPPP1PPP/RNB1K1NR b KQkq - 3 3'',
                move_history = [''e2e4'', ''e7e5'', ''f1c4'', ''b8c6'', ''d1h5''],
                last_move_at = 105, created_at = 100\<rparr>
      \<and> get_game d' 1 = Some bot_game"
proof -
  have pk: "distinct (map id_session (sessions db_mated))" by code_simp
  have n: "str_int 2 = ''2''" by code_simp
  have b: "bot_game\<lparr>status := WHITE_WON, ended_at := Some 104,
             pgn := Some ''e2e4 e7e5 f1c4 b8c6 d1h5 g8f6 h5f7'', status := IN_PROGRESS,
             ended_at := None, pgn := None\<rparr> = bot_game"
    by (simp add: bot_game_def)
  from replay_five obtain board where
    r: "replay_legal pychess (Board_start pychess)
          [''e2e4'', ''e7e5'', ''f1c4'', ''b8c6'', ''d1h5''] = Some board"
    and f: "fen pychess board
          = ''r1bqkbnr/pppp1ppp/2n5/4p2Q/2B1P3/8/PPPP1PPP/RNB1K1NR b KQkq - 3 3''"
    by (auto simp: pychess_def)
  show ?thesis
    using undo_move_replays_prefix[OF db_mated_game db_mated_session pk, of 2
        "[''e2e4'', ''e7e5'', ''f1c4'', ''b8c6'', ''d1h5'']" pychess board 105]
      r f n b
    by simp
qed

text \<open>
  C8 does not hold of the code. \<open>undo_move\<close> never asks whether a logged move is legal:
  its replay answers \<open>Invalid move in history\<close> only for an entry that does not parse,
  and \<open>push\<close> applies every parsed move that takes a piece from its square, legal or
  not. In the log of \<open>db_corrupt\<close> the fourth move is not legal where it stands, and
  undoing the last move succeeds and stores the position \<open>push\<close> made of it.
\<close>

lemma corrupt_log_not_legal:
  "replay_legal pychess pc_start [''e2e4'', ''e7e5'', ''d1h5'', ''f7f6''] = None"
  by code_simp

theorem undo_move_corrupt_log_succeeds:
  "snd (undo_move pychess 105 db_corrupt 1 1)
     = Return (True, ''Undid 1 move(s)'',
         Some ''rnbqkbnr/pppp2pp/5p2/4p2Q/4P3/8/PPPP1PPP/RNB1KBNR w KQkq - 0 3'')"
  by code_simp

section \<open>Moves that are played\<close>

lemma get_game_result_spec:
  "turn L after = (\<not> mover) \<Longrightarrow>
   map_option status_of_result (get_game_result L after) = spec_terminal_status L after mover"
  by (auto simp: get_game_result_def spec_terminal_status_def status_of_result_def)

lemma get_game_result_names:
  "get_game_result L b = Some r \<Longrightarrow> r \<in> {''white_won'', ''black_won'', ''draw''}"
  by (auto simp: get_game_result_def split: if_splits)

lemma status_of_result_inj:
  "get_game_result L b = Some r \<Longrightarrow>
   r = (case status_of_result r of WHITE_WON \<Rightarrow> ''white_won'' | BLACK_WON \<Rightarrow> ''black_won''
        | _ \<Rightarrow> ''draw'')"
  by (auto dest!: get_game_result_names simp: status_of_result_def)

lemma ids_commit_session [simp]:
  "map id_session (sessions (commit_session d s)) = map id_session (sessions d)"
  by (simp add: commit_session_def o_def)

lemma games_commit_session [simp]: "games (commit_session d s) = games d"
  by (simp add: commit_session_def)

text \<open>
  C6. After a legal ply, when the position reached is terminal in the specification's
  sense, \<open>make_move\<close> answers \<open>Game ended\<close> with no bot move, and the stored game has the
  specification's status for the side that moved, the end time and the generated game record.
  The same holds for the position after the bot's reply, for the bot. The library's
  \<open>push\<close> passes the turn; the record is what \<open>_generate_pgn\<close> returns.
\<close>

theorem make_move_terminal_status:
  assumes game: "get_game d g = Some game" "status game = IN_PROGRESS"
      and session: "get_game_session d g = Some session"
      and board: "Board_fen L (current_fen session) = Some board"
      and move: "from_uci L move_uci = Some move" "is_legal L board move"
      and after: "after = push L board move" "turn L after = (\<not> turn L board)"
  shows "(\<forall>st final_record.
            spec_terminal_status L after (turn L board) = Some st
            \<and> generate_pgn L (move_history session @ [move_uci]) = Some final_record \<longrightarrow>
            (\<exists>d' r. make_move L eng now d g move_uci
                       = (d', Return (True, ''Game ended: '' @ r, Some (fen L after), None), [])
                  \<and> get_game_result L after = Some r \<and> status_of_result r = st
                  \<and> get_game d' g
                       = Some (game\<lparr>status := st, ended_at := Some now, pgn := Some final_record\<rparr>)))
         \<and> (\<forall>bot_move reply st final_record.
            spec_terminal_status L after (turn L board) = None
            \<and> black_player_id game = None \<and> \<not> turn L after
            \<and> eng after = BestMove bot_move \<and> reply = push L after bot_move
            \<and> turn L reply = (\<not> turn L after)
            \<and> spec_terminal_status L reply (turn L after) = Some st
            \<and> generate_pgn L (move_history session @ [move_uci, uci L bot_move]) = Some final_record
            \<longrightarrow>
            (\<exists>d' r. make_move L eng now d g move_uci
                       = (d', Return (True, ''Game ended: '' @ r, Some (fen L reply),
                                      Some (uci L bot_move)), [after])
                  \<and> get_game_result L reply = Some r \<and> status_of_result r = st
                  \<and> get_game d' g
                       = Some (game\<lparr>status := st, ended_at := Some now, pgn := Some final_record\<rparr>)))"
proof (intro conjI allI impI)
  fix st final_record
  assume a: "spec_terminal_status L after (turn L board) = Some st
             \<and> generate_pgn L (move_history session @ [move_uci]) = Some final_record"
  from a after(2) obtain r where r: "get_game_result L after = Some r"
    and st: "status_of_result r = st"
    using get_game_result_spec[of L after "turn L board"] by (cases "get_game_result L after") auto
  let ?d1 = "commit_session d (session\<lparr>current_fen := fen L after,
               move_history := move_history session @ [move_uci], last_move_at := now\<rparr>)"
  let ?g1 = "game\<lparr>status := st, ended_at := Some now, pgn := Some final_record\<rparr>"
  have run: "make_move L eng now d g move_uci
               = (commit_game ?d1 ?g1,
                  Return (True, ''Game ended: '' @ r, Some (fen L after), None), [])"
    using game session board move after(1) a r st by (simp add: make_move_def Let_def)
  have "get_game (commit_game ?d1 ?g1) g = Some ?g1"
    using game get_game_id[OF game(1)] by (intro get_game_commit_game) simp_all
  with run r st show "\<exists>d' r. make_move L eng now d g move_uci
                       = (d', Return (True, ''Game ended: '' @ r, Some (fen L after), None), [])
                  \<and> get_game_result L after = Some r \<and> status_of_result r = st
                  \<and> get_game d' g = Some ?g1"
    by blast
next
  fix bot_move reply st final_record
  assume a: "spec_terminal_status L after (turn L board) = None
            \<and> black_player_id game = None \<and> \<not> turn L after
            \<and> eng after = BestMove bot_move \<and> reply = push L after bot_move
            \<and> turn L reply = (\<not> turn L after)
            \<and> spec_terminal_status L reply (turn L after) = Some st
            \<and> generate_pgn L (move_history session @ [move_uci, uci L bot_move]) = Some final_record"
  have "map_option status_of_result (get_game_result L after)
          = spec_terminal_status L after (turn L board)"
    by (rule get_game_result_spec[OF after(2)])
  moreover have "spec_terminal_status L after (turn L board) = None" using a by blast
  ultimately have none: "get_game_result L after = None"
    by (cases "get_game_result L after") simp_all
  from a obtain r where r: "get_game_result L reply = Some r"
    and st: "status_of_result r = st"
    using get_game_result_spec[of L reply "turn L after"] by (cases "get_game_result L reply") auto
  let ?s1 = "session\<lparr>current_fen := fen L after,
               move_history := move_history session @ [move_uci], last_move_at := now\<rparr>"
  let ?s2 = "?s1\<lparr>current_fen := fen L reply,
               move_history := (move_history session @ [move_uci]) @ [uci L bot_move],
               last_move_at := now\<rparr>"
  let ?d2 = "commit_session (commit_session d ?s1) ?s2"
  let ?g1 = "game\<lparr>status := st, ended_at := Some now, pgn := Some final_record\<rparr>"
  have run: "make_move L eng now d g move_uci
               = (commit_game ?d2 ?g1,
                  Return (True, ''Game ended: '' @ r, Some (fen L reply), Some (uci L bot_move)),
                  [after])"
    using game session board move after(1) a none r st
    by (simp add: make_move_def bot_reply_def Let_def)
  have "get_game (commit_game ?d2 ?g1) g = Some ?g1"
    using game get_game_id[OF game(1)] by (intro get_game_commit_game) simp_all
  with run r st show "\<exists>d' r. make_move L eng now d g move_uci
                       = (d', Return (True, ''Game ended: '' @ r, Some (fen L reply),
                                      Some (uci L bot_move)), [after])
                  \<and> get_game_result L reply = Some r \<and> status_of_result r = st
                  \<and> get_game d' g = Some ?g1"
    by blast
qed

lemma pre_mate_game: "get_game db_pre_mate 1 = Some bot_game"
  by code_simp

lemma bot_game_fields:
  "status bot_game = IN_PROGRESS" "black_player_id bot_game = None" "id_game bot_game = 1"
  by (simp_all add: bot_game_def)

lemma pre_mate_session:
  "get_game_session db_pre_mate 1 = Some \<lparr>id_session = 1, game_id = 1,
     current_fen = ''r1bqkb1r/pppp1ppp/2n2n2/4p2Q/2B1P3/8/PPPP1PPP/RNB1K1NR w KQkq - 4 4'',
     move_history = [''e2e4'', ''e7e5'', ''f1c4'', ''b8c6'', ''d1h5'', ''g8f6''],
     last_move_at = 103, created_at = 100\<rparr>"
  by code_simp

lemma pre_mate_board:
  "Board_fen pychess ''r1bqkb1r/pppp1ppp/2n2n2/4p2Q/2B1P3/8/PPPP1PPP/RNB1K1NR w KQkq - 4 4''
     = Some pre_mate_board"
  by code_simp

lemma mate_move:
  "from_uci pychess ''h5f7'' = Some (Move (7, 4) (5, 6) None)"
  "is_legal pychess pre_mate_board (Move (7, 4) (5, 6) None)"
  "push pychess pre_mate_board (Move (7, 4) (5, 6) None) = mate_board"
  "turn pychess pre_mate_board" "\<not> turn pychess mate_board"
  "fen pychess mate_board = mate_fen"
  by code_simp+

lemma mate_is_checkmate: "is_checkmate pychess mate_board"
  by code_simp

lemma mate_pgn:
  "generate_pgn pychess
     ([''e2e4'', ''e7e5'', ''f1c4'', ''b8c6'', ''d1h5'', ''g8f6''] @ [''h5f7''])
     = Some ''e2e4 e7e5 f1c4 b8c6 d1h5 g8f6 h5f7''"
  by code_simp

lemma fool_facts:
  "get_game db_fool 1 = Some bot_game"
  "get_game_session db_fool 1 = Some \<lparr>id_session = 1, game_id = 1, current_fen = fool_fen,
     move_history = [''f2f3'', ''e7e5''], last_move_at = 101, created_at = 100\<rparr>"
  "Board_fen pychess fool_fen = Some fool_board"
  "from_uci pychess ''g2g4'' = Some (Move (6, 1) (6, 3) None)"
  "is_legal pychess fool_board (Move (6, 1) (6, 3) None)"
  "push pychess fool_board (Move (6, 1) (6, 3) None) = fool_after"
  "push pychess fool_after (Move (3, 7) (7, 3) None) = fool_mate"
  "turn pychess fool_board" "\<not> turn pychess fool_after" "turn pychess fool_mate"
  "uci pychess (Move (3, 7) (7, 3) None) = ''d8h4''"
  "fen pychess fool_mate = ''rnb1kbnr/pppp1ppp/8/4p3/6Pq/5P2/PPPPP2P/RNBQKBNR w KQkq - 1 3''"
  "generate_pgn pychess ([''f2f3'', ''e7e5''] @ [''g2g4'', ''d8h4''])
     = Some ''f2f3 e7e5 g2g4 d8h4''"
  by code_simp+

lemma fool_after_open: "get_game_result pychess fool_after = None"
  by code_simp

lemma fool_is_checkmate: "is_checkmate pychess fool_mate"
  by code_simp

theorem make_move_terminal_status_witness:
  "(\<exists>d'. make_move pychess book_engine 104 db_pre_mate 1 ''h5f7''
            = (d', Return (True, ''Game ended: white_won'', Some mate_fen, None), [])
         \<and> get_game d' 1
            = Some (bot_game\<lparr>status := WHITE_WON, ended_at := Some 104,
                      pgn := Some ''e2e4 e7e5 f1c4 b8c6 d1h5 g8f6 h5f7''\<rparr>))
   \<and> (\<exists>d'. make_move pychess fool_engine 102 db_fool 1 ''g2g4''
            = (d', Return (True, ''Game ended: black_won'',
                 Some ''rnb1kbnr/pppp1ppp/8/4p3/6Pq/5P2/PPPPP2P/RNBQKBNR w KQkq - 1 3'',
                 Some ''d8h4''), [fool_after])
         \<and> get_game d' 1
            = Some (bot_game\<lparr>status := BLACK_WON, ended_at := Some 102,
                      pgn := Some ''f2f3 e7e5 g2g4 d8h4''\<rparr>))"
proof
  have t: "spec_terminal_status pychess mate_board (turn pychess pre_mate_board) = Some WHITE_WON"
    using mate_is_checkmate mate_move(4) by (simp add: spec_terminal_status_def)
  have flip: "turn pychess mate_board = (\<not> turn pychess pre_mate_board)"
    using mate_move by simp
  obtain d' r where run: "make_move pychess book_engine 104 db_pre_mate 1 ''h5f7''
        = (d', Return (True, ''Game ended: '' @ r, Some (fen pychess mate_board), None), [])"
    and r: "get_game_result pychess mate_board = Some r" "status_of_result r = WHITE_WON"
    and g: "get_game d' 1 = Some (bot_game\<lparr>status := WHITE_WON, ended_at := Some 104,
                      pgn := Some ''e2e4 e7e5 f1c4 b8c6 d1h5 g8f6 h5f7''\<rparr>)"
    using make_move_terminal_status[OF pre_mate_game bot_game_fields(1) pre_mate_session _
        mate_move(1,2) mate_move(3)[symmetric] flip, of book_engine 104]
      pre_mate_board t mate_pgn
    by auto
  have "r = ''white_won''" using status_of_result_inj[OF r(1)] r(2) by simp
  with run g mate_move(6)
  show "\<exists>d'. make_move pychess book_engine 104 db_pre_mate 1 ''h5f7''
            = (d', Return (True, ''Game ended: white_won'', Some mate_fen, None), [])
         \<and> get_game d' 1
            = Some (bot_game\<lparr>status := WHITE_WON, ended_at := Some 104,
                      pgn := Some ''e2e4 e7e5 f1c4 b8c6 d1h5 g8f6 h5f7''\<rparr>)"
    by auto
next
  have open_: "spec_terminal_status pychess fool_after (turn pychess fool_board) = None"
    using get_game_result_spec[of pychess fool_after "turn pychess fool_board"]
      fool_after_open fool_facts(8,9) by simp
  have t: "spec_terminal_status pychess fool_mate (turn pychess fool_after) = Some BLACK_WON"
    using fool_is_checkmate fool_facts(9) by (simp add: spec_terminal_status_def)
  have flip: "turn pychess fool_after = (\<not> turn pychess fool_board)"
    using fool_facts by simp
  have flip2: "turn pychess fool_mate = (\<not> turn pychess fool_after)"
    using fool_facts by simp
  have e: "fool_engine fool_after = BestMove (Move (3, 7) (7, 3) None)"
    by (simp add: fool_engine_def)
  obtain d' r where run: "make_move pychess fool_engine 102 db_fool 1 ''g2g4''
        = (d', Return (True, ''Game ended: '' @ r, Some (fen pychess fool_mate),
                       Some (uci pychess (Move (3, 7) (7, 3) None))), [fool_after])"
    and r: "get_game_result pychess fool_mate = Some r" "status_of_result r = BLACK_WON"
    and g: "get_game d' 1 = Some (bot_game\<lparr>status := BLACK_WON, ended_at := Some 102,
                      pgn := Some ''f2f3 e7e5 g2g4 d8h4''\<rparr>)"
    using make_move_terminal_status[OF fool_facts(1) bot_game_fields(1) fool_facts(2) _
        fool_facts(4,5) fool_facts(6)[symmetric] flip, of fool_engine 102]
      fool_facts(3,7,9,11,13) open_ t flip2 e bot_game_fields(2)
    by auto
  have "r = ''black_won''" using status_of_result_inj[OF r(1)] r(2) by simp
  with run g fool_facts(11,12)
  show "\<exists>d'. make_move pychess fool_engine 102 db_fool 1 ''g2g4''
            = (d', Return (True, ''Game ended: black_won'',
                 Some ''rnb1kbnr/pppp1ppp/8/4p3/6Pq/5P2/PPPPP2P/RNBQKBNR w KQkq - 1 3'',
                 Some ''d8h4''), [fool_after])
         \<and> get_game d' 1
            = Some (bot_game\<lparr>status := BLACK_WON, ended_at := Some 102,
                      pgn := Some ''f2f3 e7e5 g2g4 d8h4''\<rparr>)"
    by auto
qed

section \<open>The bot's reply\<close>

lemma make_move_legal:
  assumes "get_game d g = Some game" "status game = IN_PROGRESS"
      and "get_game_session d g = Some session"
      and "Board_fen L (current_fen session) = Some board"
      and "from_uci L move_uci = Some move" "is_legal L board move"
      and "after = push L board move"
      and "history = move_history session @ [move_uci]"
      and "played = session\<lparr>current_fen := fen L after, move_history := history,
                            last_move_at := now\<rparr>"
  shows "make_move L eng now d g move_uci =
     (case get_game_result L after of
        Some game_result \<Rightarrow>
          (case generate_pgn L history of
             None \<Rightarrow> (commit_session d played, Raise, [])
           | Some p \<Rightarrow>
               (commit_game (commit_session d played)
                  (game\<lparr>status := status_of_result game_result, ended_at := Some now,
                         pgn := Some p\<rparr>),
                Return (True, ''Game ended: '' @ game_result, Some (fen L after), None), []))
      | None \<Rightarrow>
          if black_player_id game = None \<and> \<not> turn L after
          then (fst (bot_reply L eng now (commit_session d played) game played after history),
                snd (bot_reply L eng now (commit_session d played) game played after history),
                [after])
          else (commit_session d played,
                Return (True, ''Move successful'', Some (fen L after), None), []))"
  using assms by (simp add: make_move_def Let_def split_beta split: option.splits)

lemma commit_session_twice:
  "id_session s' = id_session s \<Longrightarrow>
   commit_session (commit_session d s) s' = commit_session d s'"
  by (simp add: commit_session_def o_def)

lemma sessions_bot_reply:
  "eng after = BestMove bot_move \<Longrightarrow>
   sessions (fst (bot_reply L eng now d game played after history))
     = sessions (commit_session d (played\<lparr>current_fen := fen L (push L after bot_move),
                   move_history := history @ [uci L bot_move], last_move_at := now\<rparr>))"
  by (simp add: bot_reply_def Let_def split: option.splits)

lemma reply_bot_reply:
  "eng after = BestMove bot_move \<Longrightarrow>
   \<exists>msg. snd (bot_reply L eng now d game played after history)
            = Return (True, msg, Some (fen L (push L after bot_move)), Some (uci L bot_move))"
  by (simp add: bot_reply_def Let_def split: option.splits)

lemma silent_bot_reply:
  "eng after = NoMove \<or> eng after = EngineError \<Longrightarrow>
   bot_reply L eng now d game played after history
     = (d, Return (True, ''Move successful'', Some (fen L after), None))"
  by (auto simp: bot_reply_def)

text \<open>
  C5, as the code has it. After a legal ply in a game in progress, the engine is asked
  for a reply exactly when the ply did not end the game, the game has no black player
  and it is black's turn in the position reached; it is then asked once, on that
  position. A move it gives is applied: it is answered as the bot's move with the
  encoding of the position after it, and the session holds that encoding and the log
  extended by both plies. When it gives none the answer is \<open>Move successful\<close> without
  a bot move.
\<close>

theorem make_move_bot_reply_condition:
  assumes game: "get_game d g = Some game" "status game = IN_PROGRESS"
      and session: "get_game_session d g = Some session"
      and pk: "distinct (map id_session (sessions d))"
      and board: "Board_fen L (current_fen session) = Some board"
      and move: "from_uci L move_uci = Some move" "is_legal L board move"
      and after: "after = push L board move"
  shows "snd (snd (make_move L eng now d g move_uci))
           = (if get_game_result L after = None \<and> black_player_id game = None
                 \<and> \<not> turn L after
              then [after] else [])
         \<and> (get_game_result L after = None \<and> black_player_id game = None
              \<and> \<not> turn L after \<longrightarrow>
              (\<forall>bot_move. eng after = BestMove bot_move \<longrightarrow>
                 (\<exists>msg. fst (snd (make_move L eng now d g move_uci))
                          = Return (True, msg, Some (fen L (push L after bot_move)),
                                    Some (uci L bot_move)))
                 \<and> get_game_session (fst (make_move L eng now d g move_uci)) g
                     = Some (session\<lparr>current_fen := fen L (push L after bot_move),
                               move_history := move_history session
                                                 @ [move_uci, uci L bot_move],
                               last_move_at := now\<rparr>))
              \<and> (eng after = NoMove \<or> eng after = EngineError \<longrightarrow>
                 fst (snd (make_move L eng now d g move_uci))
                   = Return (True, ''Move successful'', Some (fen L after), None)))"
proof -
  let ?h = "move_history session @ [move_uci]"
  let ?p = "session\<lparr>current_fen := fen L after, move_history := ?h, last_move_at := now\<rparr>"
  note run = make_move_legal[OF game session board move after refl refl, of eng now]
  have trace: "snd (snd (make_move L eng now d g move_uci))
           = (if get_game_result L after = None \<and> black_player_id game = None
                 \<and> \<not> turn L after
              then [after] else [])"
    by (simp add: run split: option.splits)
  have asked: "make_move L eng now d g move_uci
      = (fst (bot_reply L eng now (commit_session d ?p) game ?p after ?h),
         snd (bot_reply L eng now (commit_session d ?p) game ?p after ?h), [after])"
    if "get_game_result L after = None \<and> black_player_id game = None \<and> \<not> turn L after"
    using that by (simp add: run)
  have given: "(\<exists>msg. fst (snd (make_move L eng now d g move_uci))
                          = Return (True, msg, Some (fen L (push L after bot_move)),
                                    Some (uci L bot_move)))
                 \<and> get_game_session (fst (make_move L eng now d g move_uci)) g
                     = Some (session\<lparr>current_fen := fen L (push L after bot_move),
                               move_history := move_history session
                                                 @ [move_uci, uci L bot_move],
                               last_move_at := now\<rparr>)"
    if c: "get_game_result L after = None \<and> black_player_id game = None \<and> \<not> turn L after"
      and e: "eng after = BestMove bot_move" for bot_move
  proof -
    let ?s2 = "?p\<lparr>current_fen := fen L (push L after bot_move),
                   move_history := ?h @ [uci L bot_move], last_move_at := now\<rparr>"
    let ?d' = "fst (make_move L eng now d g move_uci)"
    have "sessions ?d' = sessions (commit_session (commit_session d ?p) ?s2)"
      using asked[OF c] sessions_bot_reply[of eng after bot_move L now _ game ?p ?h] e by simp
    also have "\<dots> = sessions (commit_session d ?s2)"
      by (simp add: commit_session_twice)
    finally have "get_game_session ?d' g = get_game_session (commit_session d ?s2) g"
      by (simp add: get_game_session_def)
    also have "\<dots> = Some ?s2"
      using get_game_session_commit_session[OF session pk, of ?s2] by simp
    finally have s: "get_game_session ?d' g = Some ?s2" .
    from reply_bot_reply[of eng after bot_move L now "commit_session d ?p" game ?p ?h] e
      asked[OF c] s
    show ?thesis by simp
  qed
  have silent: "fst (snd (make_move L eng now d g move_uci))
                   = Return (True, ''Move successful'', Some (fen L after), None)"
    if c: "get_game_result L after = None \<and> black_player_id game = None \<and> \<not> turn L after"
      and e: "eng after = NoMove \<or> eng after = EngineError"
    using asked[OF c] silent_bot_reply[of eng after L now "commit_session d ?p" game ?p ?h] e
    by simp
  from trace given silent show ?thesis by blast
qed

lemma e4_facts:
  "from_uci pychess ''e2e4'' = Some (Move (4, 1) (4, 3) None)"
  "is_legal pychess pc_start (Move (4, 1) (4, 3) None)"
  "push pychess pc_start (Move (4, 1) (4, 3) None) = e4_board"
  "\<not> turn pychess e4_board"
  "book_engine e4_board = BestMove (Move (4, 6) (4, 4) None)"
  "uci pychess (Move (4, 6) (4, 4) None) = ''e7e5''"
  "fen pychess (push pychess e4_board (Move (4, 6) (4, 4) None)) = e4_e5_fen"
  by code_simp+

lemma e4_open: "get_game_result pychess e4_board = None"
  by code_simp

lemma db_bot_pk: "distinct (map id_session (sessions db_bot))"
  by code_simp

lemma db_pvp_facts:
  "get_game db_pvp 1 = Some \<lparr>id_game = 1, white_player_id = Some 1, black_player_id = Some 2,
     pgn = None, status = IN_PROGRESS, ended_at = None\<rparr>"
  "get_game_session db_pvp 1 = Some \<lparr>id_session = 1, game_id = 1, current_fen = start_fen,
     move_history = [], last_move_at = 100, created_at = 100\<rparr>"
  "distinct (map id_session (sessions db_pvp))"
  by code_simp+

theorem make_move_bot_reply_witness:
  "snd (snd (make_move pychess book_engine 101 db_bot 1 ''e2e4'')) = [e4_board]
   \<and> (\<exists>msg. fst (snd (make_move pychess book_engine 101 db_bot 1 ''e2e4''))
              = Return (True, msg, Some e4_e5_fen, Some ''e7e5''))
   \<and> get_game_session (fst (make_move pychess book_engine 101 db_bot 1 ''e2e4'')) 1
       = Some \<lparr>id_session = 1, game_id = 1, current_fen = e4_e5_fen,
               move_history = [''e2e4'', ''e7e5''], last_move_at = 101, created_at = 100\<rparr>
   \<and> snd (snd (make_move pychess book_engine 101 db_pvp 1 ''e2e4'')) = []"
proof -
  have s: "Board_fen pychess (current_fen \<lparr>id_session = 1, game_id = 1,
     current_fen = start_fen, move_history = [], last_move_at = 100, created_at = 100\<rparr>)
       = Some pc_start"
    using start_fen_board by simp
  have g: "status \<lparr>id_game = 1, white_player_id = Some 1, black_player_id = None,
     pgn = None, status = IN_PROGRESS, ended_at = None\<rparr> = IN_PROGRESS" by simp
  have g2: "status \<lparr>id_game = 1, white_player_id = Some 1, black_player_id = Some 2,
     pgn = None, status = IN_PROGRESS, ended_at = None\<rparr> = IN_PROGRESS" by simp
  show ?thesis
    using make_move_bot_reply_condition[OF db_bot_game g db_bot_session db_bot_pk s
        e4_facts(1,2) e4_facts(3)[symmetric], of book_engine 101]
      make_move_bot_reply_condition[OF db_pvp_facts(1) g2 db_pvp_facts(2,3) s
        e4_facts(1,2) e4_facts(3)[symmetric], of book_engine 101]
      e4_open e4_facts(4,5,6,7)
    by simp
qed

text \<open>
  The claim as stated fails where the human ply ends the game: in the bot game of
  \<open>db_pre_mate\<close> the move \<open>h5f7\<close> mates. The game has no black player and it is black's
  turn in the position reached, and the engine is not asked.
\<close>

lemma mated_commit:
  "commit_game
     (commit_session db_pre_mate
        \<lparr>id_session = 1, game_id = 1, current_fen = mate_fen,
          move_history = [''e2e4'', ''e7e5'', ''f1c4'', ''b8c6'', ''d1h5'', ''g8f6'', ''h5f7''],
          last_move_at = 104, created_at = 100\<rparr>)
     (bot_game\<lparr>status := WHITE_WON, ended_at := Some 104,
        pgn := Some ''e2e4 e7e5 f1c4 b8c6 d1h5 g8f6 h5f7''\<rparr>) = db_mated"
  by code_simp

lemma mate_result: "get_game_result pychess mate_board = Some ''white_won''"
  using mate_is_checkmate mate_move(5) by (simp add: get_game_result_def)

lemma mate_run:
  "make_move pychess eng 104 db_pre_mate 1 ''h5f7''
     = (db_mated, Return (True, ''Game ended: white_won'', Some mate_fen, None), [])"
  using make_move_legal[OF pre_mate_game bot_game_fields(1) pre_mate_session _
      mate_move(1,2) mate_move(3)[symmetric] refl refl, of eng 104]
    pre_mate_board mate_result mate_pgn mate_move(6) mated_commit
  by (simp add: status_of_result_def)

theorem make_move_mate_no_reply_counterexample:
  "make_move pychess book_engine 104 db_pre_mate 1 ''h5f7''
     = (db_mated, Return (True, ''Game ended: white_won'', Some mate_fen, None), [])
   \<and> get_game db_pre_mate 1 = Some bot_game \<and> black_player_id bot_game = None
   \<and> push pychess pre_mate_board (Move (7, 4) (5, 6) None) = mate_board
   \<and> \<not> turn pychess mate_board"
  using mate_run[of book_engine] pre_mate_game bot_game_fields(2) mate_move(3,5) by simp

section \<open>User statistics\<close>

lemma group_by_difficulty_sums:
  "group_by_difficulty d rows acc diff =
     (if rows_of_difficulty d diff rows = [] then acc diff
      else Some (fst (case acc diff of None \<Rightarrow> (0, 0) | Some e \<Rightarrow> e)
                   + sum_list (map solved (rows_of_difficulty d diff rows)),
                 snd (case acc diff of None \<Rightarrow> (0, 0) | Some e \<Rightarrow> e)
                   + sum_list (map failed (rows_of_difficulty d diff rows))))"
proof (induction rows arbitrary: acc)
  case Nil
  show ?case by (simp add: rows_of_difficulty_def)
next
  case (Cons up ups)
  show ?case
  proof (cases "get_puzzle d (puzzle_id up)")
    case None
    then have "rows_of_difficulty d diff (up # ups) = rows_of_difficulty d diff ups"
      by (simp add: rows_of_difficulty_def)
    with None Cons.IH[of acc] show ?thesis by simp
  next
    case (Some puzzle)
    define e where "e = (case acc (difficulty puzzle) of None \<Rightarrow> (0, 0) | Some e \<Rightarrow> e)"
    define acc' where "acc' = acc(difficulty puzzle \<mapsto> (fst e + solved up, snd e + failed up))"
    have step: "group_by_difficulty d (up # ups) acc diff = group_by_difficulty d ups acc' diff"
      using Some by (simp add: Let_def split_beta acc'_def e_def)
    note IH = Cons.IH[of acc']
    show ?thesis
    proof (cases "difficulty puzzle = diff")
      case True
      have r: "rows_of_difficulty d diff (up # ups) = up # rows_of_difficulty d diff ups"
        using Some True by (simp add: rows_of_difficulty_def)
      have a: "acc' diff = Some (fst e + solved up, snd e + failed up)"
        using True by (simp add: acc'_def)
      have e: "(case acc diff of None \<Rightarrow> (0, 0) | Some e \<Rightarrow> e) = e"
        using True by (simp add: e_def)
      show ?thesis
        unfolding step r IH a e by (simp add: add.assoc)
    next
      case False
      have r: "rows_of_difficulty d diff (up # ups) = rows_of_difficulty d diff ups"
        using Some False by (simp add: rows_of_difficulty_def)
      have a: "acc' diff = acc diff"
        using False by (simp add: acc'_def)
      show ?thesis
        unfolding step r IH a by simp
    qed
  qed
qed

text \<open>
  What \<open>get_user_stats\<close> does compute as the claim C9 says: the totals over the user's
  rows, and for each difficulty the sums over the user's rows whose puzzle exists and
  has that difficulty (no entry when there is no such row).
\<close>

lemma get_user_stats_sums:
  "total_solved (get_user_stats F d u)
     = sum_list (map solved (filter (\<lambda>x. user_id x = u) (user_puzzles d)))
   \<and> total_failed (get_user_stats F d u)
     = sum_list (map failed (filter (\<lambda>x. user_id x = u) (user_puzzles d)))
   \<and> puzzles_by_difficulty (get_user_stats F d u) diff
     = (let here = rows_of_difficulty d diff (filter (\<lambda>x. user_id x = u) (user_puzzles d))
        in if here = [] then None
           else Some (sum_list (map solved here), sum_list (map failed here)))"
  by (simp add: get_user_stats_def Let_def group_by_difficulty_sums)

text \<open>
  C9 does not hold of the code for the best time. The rows that count are those whose
  \<open>best_time_seconds\<close> is truthy, so a recorded time of 0.0 is left out like an absent
  one: for the user 7 of \<open>db_times\<close>, with recorded times 0.0 and 2.5, the answer is 2.5.
\<close>

theorem get_user_stats_zero_best_time:
  "map best_time_seconds (filter (\<lambda>x. user_id x = 7) (user_puzzles db_times))
     = [Some 0, Some (5 / 2)]
   \<and> us_best_time_seconds (get_user_stats F db_times 7) = Some (5 / 2)
   \<and> us_best_time_seconds
        (get_user_stats F (db_times\<lparr>user_puzzles := [hd (user_puzzles db_times)]\<rparr>) 7) = None"
  by (simp add: get_user_stats_def db_times_def Let_def)

section \<open>The session invariant\<close>

lemma replay_legal_append:
  "replay_legal L board (us @ vs) =
     (case replay_legal L board us of None \<Rightarrow> None | Some b \<Rightarrow> replay_legal L b vs)"
  by (induction us arbitrary: board) (auto split: option.splits)

lemma replay_legal_take:
  "replay_legal L board us = Some b \<Longrightarrow> \<exists>b'. replay_legal L board (take j us) = Some b'"
  using replay_legal_append[of L board "take j us" "drop j us"]
  by (auto split: option.splits)

lemma py_slice_upto_take: "\<exists>j. py_slice_upto xs k = take j xs"
  by (auto simp: py_slice_upto_def)

lemma sessions_update_user_stats [simp]:
  "sessions (update_user_stats now d u p success) = sessions d"
  by (simp add: update_user_stats_def Let_def split: option.splits)

lemma sessions_attempt_puzzle [simp]:
  "sessions (fst (attempt_puzzle L now d p move_uci user)) = sessions d"
  by (simp add: attempt_puzzle_def Let_def split_beta split: option.splits)

lemma sessions_create_game:
  "sessions (fst (create_game L now d white black is_bot_game))
     = sessions d @ [\<lparr>id_session = fresh_id (map id_session (sessions d)),
                       game_id = fresh_id (map id_game (games d)),
                       current_fen = fen L (Board_start L), move_history = [],
                       last_move_at = now, created_at = now\<rparr>]"
  by (simp add: create_game_def Let_def)

lemma fst_api_create_game_run:
  "fst (api_create_game_run L configure_ok now d game_data)
     = fst (create_game L now d (gc_white_player_id game_data)
              (if gc_is_bot_game game_data then None else gc_black_player_id game_data)
              (gc_is_bot_game game_data))"
  by (simp add: api_create_game_run_def Let_def split_beta)

lemma list_all_api_create_game:
  assumes new: "\<And>i g t. P \<lparr>id_session = i, game_id = g, current_fen = fen L (Board_start L),
                            move_history = [], last_move_at = t, created_at = t\<rparr>"
      and inv: "list_all P (sessions d)"
  shows "list_all P (sessions (fst (api_create_game L cfg configure_ok now d game_data)))"
  unfolding api_create_game_def
proof (rule recover_invariant[where I = "\<lambda>d :: db. list_all P (sessions d)"])
  fix k and d1 :: db assume "list_all P (sessions d1)"
  then show "list_all P (sessions (fst (api_create_game_run L (configure_ok k) (now k) d1
                                          game_data)))"
    using new by (simp add: fst_api_create_game_run sessions_create_game)
next
  show "list_all P (sessions d)" by (rule inv)
qed

lemma list_all_commit_session:
  "list_all P (sessions d) \<Longrightarrow> P s \<Longrightarrow> list_all P (sessions (commit_session d s))"
  by (auto simp: commit_session_def list_all_iff)

text \<open>
  The sessions a call of \<open>make_move\<close> leaves: those it found, or those with the human
  ply committed, or those with the human ply and then the bot's reply committed.
\<close>

lemma make_move_sessions:
  "sessions (fst (make_move L eng now d g move_uci)) = sessions d
   \<or> (\<exists>session board move played.
         get_game_session d g = Some session
         \<and> Board_fen L (current_fen session) = Some board
         \<and> from_uci L move_uci = Some move \<and> is_legal L board move
         \<and> played = session\<lparr>current_fen := fen L (push L board move),
                       move_history := move_history session @ [move_uci],
                       last_move_at := now\<rparr>
         \<and> (sessions (fst (make_move L eng now d g move_uci))
               = sessions (commit_session d played)
             \<or> (\<exists>bot_move.
                   eng (push L board move) = BestMove bot_move
                   \<and> sessions (fst (make_move L eng now d g move_uci))
                       = sessions (commit_session (commit_session d played)
                           (played\<lparr>current_fen := fen L (push L (push L board move) bot_move),
                              move_history := move_history played @ [uci L bot_move],
                              last_move_at := now\<rparr>)))))"
proof (cases "\<exists>game session board move. get_game d g = Some game \<and> status game = IN_PROGRESS
    \<and> get_game_session d g = Some session \<and> Board_fen L (current_fen session) = Some board
    \<and> from_uci L move_uci = Some move \<and> is_legal L board move")
  case False
  then have "fst (make_move L eng now d g move_uci) = d"
    by (auto simp: make_move_def split: option.splits)
  then show ?thesis by simp
next
  case True
  then obtain game session board move where
    a: "get_game d g = Some game" "status game = IN_PROGRESS"
       "get_game_session d g = Some session" "Board_fen L (current_fen session) = Some board"
       "from_uci L move_uci = Some move" "is_legal L board move"
    by blast
  let ?after = "push L board move"
  let ?h = "move_history session @ [move_uci]"
  let ?p = "session\<lparr>current_fen := fen L ?after, move_history := ?h, last_move_at := now\<rparr>"
  note run = make_move_legal[OF a refl refl refl, of eng now]
  have "sessions (fst (make_move L eng now d g move_uci)) = sessions (commit_session d ?p)
        \<or> (\<exists>bot_move. eng ?after = BestMove bot_move
              \<and> sessions (fst (make_move L eng now d g move_uci))
                  = sessions (commit_session (commit_session d ?p)
                      (?p\<lparr>current_fen := fen L (push L ?after bot_move),
                          move_history := move_history ?p @ [uci L bot_move],
                          last_move_at := now\<rparr>)))"
  proof (cases "eng ?after")
    case (BestMove bot_move)
    show ?thesis
      using sessions_bot_reply[of eng ?after bot_move L now "commit_session d ?p" game ?p ?h]
        BestMove
      by (auto simp: run split: option.splits)
  next
    case NoMove
    then show ?thesis
      using silent_bot_reply[of eng ?after L now "commit_session d ?p" game ?p ?h]
      by (auto simp: run split: option.splits)
  next
    case EngineError
    then show ?thesis
      using silent_bot_reply[of eng ?after L now "commit_session d ?p" game ?p ?h]
      by (auto simp: run split: option.splits)
  qed
  with a show ?thesis by blast
qed

lemma undo_move_sessions:
  "sessions (fst (undo_move L now d g num_moves)) = sessions d
   \<or> (\<exists>session j board.
         get_game_session d g = Some session
         \<and> replay_moves L (Board_start L) (take j (move_history session))
               = Return (Some board)
         \<and> sessions (fst (undo_move L now d g num_moves))
             = sessions (commit_session d
                 (session\<lparr>current_fen := fen L board,
                    move_history := take j (move_history session), last_move_at := now\<rparr>)))"
proof (cases "fst (undo_move L now d g num_moves) = d")
  case True
  then show ?thesis by simp
next
  case False
  then obtain game session board where
    a: "get_game d g = Some game" "get_game_session d g = Some session"
       "\<not> int (length (move_history session)) < num_moves"
       "replay_moves L (Board_start L) (py_slice_upto (move_history session) (- num_moves))
          = Return (Some board)"
    by (auto simp: undo_move_def Let_def split: option.splits if_splits outcome.splits)
  obtain j where j: "py_slice_upto (move_history session) (- num_moves)
      = take j (move_history session)"
    using py_slice_upto_take by blast
  have "sessions (fst (undo_move L now d g num_moves))
          = sessions (commit_session d
                 (session\<lparr>current_fen := fen L board,
                    move_history := take j (move_history session), last_move_at := now\<rparr>))"
    using a by (simp add: undo_move_def Let_def j)
  with a j show ?thesis by auto
qed

lemma contract_start: "lib_contract_on L W \<Longrightarrow> W (Board_start L)"
  unfolding lib_contract_on_def by (elim conjE)

lemma contract_push: "lib_contract_on L W \<Longrightarrow> W b \<Longrightarrow> is_legal L b m \<Longrightarrow> W (push L b m)"
  unfolding lib_contract_on_def by blast

lemma contract_parse:
  "lib_contract_on L W \<Longrightarrow> W b \<Longrightarrow> Board_fen L (fen L b) = Some b' \<Longrightarrow>
   W b' \<and> fen L b' = fen L b"
  unfolding lib_contract_on_def by blast

lemma contract_same:
  "lib_contract_on L W \<Longrightarrow> W b \<Longrightarrow> W b' \<Longrightarrow> fen L b = fen L b' \<Longrightarrow> is_legal L b m \<Longrightarrow>
   is_legal L b' m \<and> fen L (push L b m) = fen L (push L b' m)"
  unfolding lib_contract_on_def by blast

lemma contract_replay:
  assumes "lib_contract_on L W"
  shows "W b \<Longrightarrow> replay_legal L b us = Some B \<Longrightarrow> W B"
proof (induction us arbitrary: b)
  case Nil
  then show ?case by simp
next
  case (Cons u us)
  from Cons.prems(2) obtain m where m: "from_uci L u = Some m" "is_legal L b m"
    "replay_legal L (push L b m) us = Some B"
    by (auto split: option.splits if_splits)
  have "W (push L b m)"
    using contract_push[OF assms Cons.prems(1) m(2)] .
  then show ?case using Cons.IH m(3) by blast
qed

lemma contract_ply:
  assumes c: "lib_contract_on L W"
      and r: "replay_legal L (Board_start L) us = Some B"
      and w: "W B" "W b" and f: "fen L B = fen L b"
      and m: "from_uci L u = Some m" "is_legal L b m"
  shows "\<exists>B'. replay_legal L (Board_start L) (us @ [u]) = Some B' \<and> W B'
               \<and> fen L B' = fen L (push L b m) \<and> W (push L b m)"
proof -
  have same: "is_legal L B m \<and> fen L (push L b m) = fen L (push L B m)"
    using contract_same[OF c w(2) w(1) f[symmetric] m(2)] .
  have 1: "W (push L B m)" using contract_push[OF c w(1)] same by blast
  have 2: "W (push L b m)" using contract_push[OF c w(2) m(2)] .
  have "replay_legal L (Board_start L) (us @ [u]) = Some (push L B m)"
    using r m(1) same by (simp add: replay_legal_append)
  with 1 2 same show ?thesis by simp
qed

lemma well_replayed_new:
  "lib_contract_on L W \<Longrightarrow>
   well_replayed L W \<lparr>id_session = i, game_id = g, current_fen = fen L (Board_start L),
     move_history = [], last_move_at = t, created_at = t'\<rparr>"
  using contract_start[of L W] by (simp add: well_replayed_def)

lemma well_replayed_consistent: "well_replayed L W s \<Longrightarrow> consistent L s"
  by (auto simp: well_replayed_def consistent_def)

lemma well_replayed_make_move:
  assumes c: "lib_contract_on L W" and e: "engine_sound L eng"
      and inv: "list_all (well_replayed L W) (sessions d)"
  shows "list_all (well_replayed L W) (sessions (fst (make_move L eng now d g move_uci)))"
proof -
  let ?d' = "fst (make_move L eng now d g move_uci)"
  note cases = make_move_sessions[of L eng now d g move_uci]
  show ?thesis
  proof (cases "sessions ?d' = sessions d")
    case True
    with inv show ?thesis by simp
  next
    case False
    with cases obtain session board move played where
      s: "get_game_session d g = Some session"
      and b: "Board_fen L (current_fen session) = Some board"
      and m: "from_uci L move_uci = Some move" "is_legal L board move"
      and p: "played = session\<lparr>current_fen := fen L (push L board move),
                       move_history := move_history session @ [move_uci],
                       last_move_at := now\<rparr>"
      and d': "sessions ?d' = sessions (commit_session d played)
           \<or> (\<exists>bot_move. eng (push L board move) = BestMove bot_move
                 \<and> sessions ?d' = sessions (commit_session (commit_session d played)
                      (played\<lparr>current_fen := fen L (push L (push L board move) bot_move),
                         move_history := move_history played @ [uci L bot_move],
                         last_move_at := now\<rparr>)))"
      by (elim disjE exE conjE) simp_all
    have "session \<in> set (sessions d)"
      using get_game_session_mem[OF s] by simp
    with inv have "well_replayed L W session" by (simp add: list_all_iff)
    then obtain B where B: "replay_legal L (Board_start L) (move_history session) = Some B"
      "W B" "fen L B = current_fen session"
      unfolding well_replayed_def by blast
    have "Board_fen L (fen L B) = Some board" using b B(3) by simp
    from contract_parse[OF c B(2) this]
    have wb: "W board" and fb: "fen L B = fen L board" by simp_all
    from contract_ply[OF c B(1) B(2) wb fb m]
    obtain B1 where B1: "replay_legal L (Board_start L) (move_history session @ [move_uci])
        = Some B1" "W B1" "fen L B1 = fen L (push L board move)" "W (push L board move)"
      by blast
    have hp: "move_history played = move_history session @ [move_uci]"
      and fp: "current_fen played = fen L (push L board move)"
      using p by simp_all
    have gp: "well_replayed L W played"
      unfolding well_replayed_def hp fp using B1 by blast
    have g1: "list_all (well_replayed L W) (sessions (commit_session d played))"
      using inv gp by (rule list_all_commit_session)
    from d' show ?thesis
    proof
      assume "sessions ?d' = sessions (commit_session d played)"
      with g1 show ?thesis by simp
    next
      assume "\<exists>bot_move. eng (push L board move) = BestMove bot_move
               \<and> sessions ?d' = sessions (commit_session (commit_session d played)
                    (played\<lparr>current_fen := fen L (push L (push L board move) bot_move),
                       move_history := move_history played @ [uci L bot_move],
                       last_move_at := now\<rparr>))"
      then obtain bot_move where em: "eng (push L board move) = BestMove bot_move"
        and sd: "sessions ?d' = sessions (commit_session (commit_session d played)
                    (played\<lparr>current_fen := fen L (push L (push L board move) bot_move),
                       move_history := move_history played @ [uci L bot_move],
                       last_move_at := now\<rparr>))"
        by (elim exE conjE)
      have sound: "is_legal L (push L board move) bot_move"
        "from_uci L (uci L bot_move) = Some bot_move"
        using e em unfolding engine_sound_def by blast+
      from contract_ply[OF c B1(1) B1(2) B1(4) B1(3) sound(2) sound(1)]
      obtain B2 where B2: "replay_legal L (Board_start L)
            ((move_history session @ [move_uci]) @ [uci L bot_move]) = Some B2" "W B2"
          "fen L B2 = fen L (push L (push L board move) bot_move)"
        by blast
      have "well_replayed L W
              (played\<lparr>current_fen := fen L (push L (push L board move) bot_move),
                 move_history := move_history played @ [uci L bot_move],
                 last_move_at := now\<rparr>)"
        unfolding well_replayed_def hp using B2 by auto
      with g1 show ?thesis
        unfolding sd by (rule list_all_commit_session)
    qed
  qed
qed

lemma well_replayed_undo_move:
  assumes c: "lib_contract_on L W"
      and inv: "list_all (well_replayed L W) (sessions d)"
  shows "list_all (well_replayed L W) (sessions (fst (undo_move L now d g num_moves)))"
proof -
  let ?d' = "fst (undo_move L now d g num_moves)"
  note cases = undo_move_sessions[of L now d g num_moves]
  show ?thesis
  proof (cases "sessions ?d' = sessions d")
    case True
    with inv show ?thesis by simp
  next
    case False
    with cases obtain session j board where
      s: "get_game_session d g = Some session"
      and r: "replay_moves L (Board_start L) (take j (move_history session))
                = Return (Some board)"
      and d': "sessions ?d' = sessions (commit_session d
            (session\<lparr>current_fen := fen L board,
               move_history := take j (move_history session), last_move_at := now\<rparr>))"
      by (elim disjE exE conjE) simp_all
    have "session \<in> set (sessions d)"
      using get_game_session_mem[OF s] by simp
    with inv have "well_replayed L W session" by (simp add: list_all_iff)
    then obtain B where B: "replay_legal L (Board_start L) (move_history session) = Some B"
      unfolding well_replayed_def by blast
    obtain B' where B': "replay_legal L (Board_start L) (take j (move_history session))
        = Some B'"
      using replay_legal_take[OF B] by blast
    have eq: "board = B'"
      using replay_legal_replay_moves[OF B'] r by simp
    have w: "W B'" using contract_replay[OF c contract_start[OF c] B'] .
    have "well_replayed L W (session\<lparr>current_fen := fen L board,
               move_history := take j (move_history session), last_move_at := now\<rparr>)"
      unfolding well_replayed_def using B' w eq by auto
    with inv show ?thesis
      unfolding d' by (rule list_all_commit_session)
  qed
qed

text \<open>
  C1. With a rules library that keeps its contract and an engine whose moves are legal,
  every session of every store reached from a store without sessions by \<open>create_game\<close>
  (directly or through the endpoint), \<open>make_move\<close>, \<open>undo_move\<close> and \<open>attempt_puzzle\<close>
  calls, successful or not, is consistent: its log replays from the starting position,
  every move legal where it stands, to a position whose encoding is the stored one.
\<close>

theorem reachable_sessions_consistent:
  assumes contract: "lib_contract L" and reach: "reachable L d"
  shows "list_all (consistent L) (sessions d)"
proof -
  from contract obtain W where c: "lib_contract_on L W"
    unfolding lib_contract_def by blast
  have "list_all (well_replayed L W) (sessions d)"
    using reach
  proof (induction rule: reachable.induct)
    case (no_sessions d)
    then show ?case by simp
  next
    case (created d now white black is_bot_game)
    then show ?case
      using well_replayed_new[OF c] by (simp add: sessions_create_game)
  next
    case (created_api d cfg configure_ok now game_data)
    from well_replayed_new[OF c] created_api.IH show ?case
      by (rule list_all_api_create_game)
  next
    case (moved d eng now g move_uci)
    from well_replayed_make_move[OF c moved.hyps(2) moved.IH] show ?case .
  next
    case (undone d now g num_moves)
    from well_replayed_undo_move[OF c undone.IH] show ?case .
  next
    case (attempted d now p move_uci user)
    then show ?case by simp
  qed
  then show ?thesis
    using well_replayed_consistent[of L W] by (auto simp: list_all_iff)
qed

section \<open>The model of the rules library keeps the contract\<close>

subsection \<open>Characters\<close>

lemma index_of_None: "x \<notin> set xs \<Longrightarrow> index_of x xs = None"
  by (induction xs) auto

lemma index_of_nth: "distinct xs \<Longrightarrow> i < length xs \<Longrightarrow> index_of (xs ! i) xs = Some i"
proof (induction xs arbitrary: i)
  case Nil
  then show ?case by simp
next
  case (Cons x xs)
  show ?case
  proof (cases i)
    case 0
    then show ?thesis by simp
  next
    case (Suc j)
    with Cons.prems have "xs ! j \<noteq> x" by auto
    with Suc Cons show ?thesis by simp
  qed
qed

lemma index_of_digit: "d < 10 \<Longrightarrow> index_of (digit_char d) ''0123456789'' = Some d"
  unfolding digit_char_def by (rule index_of_nth) simp_all

lemma index_of_rank_digit:
  assumes "1 \<le> k" "k \<le> 8"
  shows "index_of (digit_char k) ''12345678'' = Some (k - 1)"
proof -
  have "digit_char k = ''12345678'' ! (k - 1)"
    using assms by (simp add: digit_char_def nth_Cons')
  moreover have "index_of (''12345678'' ! (k - 1)) ''12345678'' = Some (k - 1)"
    using assms by (intro index_of_nth) simp_all
  ultimately show ?thesis by simp
qed

lemma digit_char_in: "d < 10 \<Longrightarrow> digit_char d \<in> set ''0123456789''"
  unfolding digit_char_def by (rule nth_mem) simp

lemma parse_square_name: "on_board sq \<Longrightarrow> parse_square (square_name sq) = Some sq"
proof -
  assume "on_board sq"
  then have f: "fst sq < 8" and r: "snd sq < 8" by (simp_all add: on_board_def)
  have "index_of (''abcdefgh'' ! fst sq) ''abcdefgh'' = Some (fst sq)"
    using f by (intro index_of_nth) simp_all
  moreover have "index_of (''12345678'' ! snd sq) ''12345678'' = Some (snd sq)"
    using r by (intro index_of_nth) simp_all
  ultimately show ?thesis by (simp add: parse_square_def square_name_def)
qed

lemma symbol_piece_symbol: "symbol_piece (piece_symbol pc) = Some pc"
proof (cases pc)
  case (Pair c k)
  then show ?thesis
    by (cases c; cases k)
      (simp_all add: symbol_piece_def piece_symbol_def upper_ptype_def symbol_ptype_def
         all_ptypes_def)
qed

lemma piece_symbol_letter:
  "piece_symbol pc \<in> set ''PNBRQKpnbrqk''"
proof (cases pc)
  case (Pair c k)
  then show ?thesis by (cases c; cases k) (simp_all add: piece_symbol_def)
qed

lemma piece_symbol_no_digit: "index_of (piece_symbol pc) ''12345678'' = None"
  using piece_symbol_letter[of pc] by (intro index_of_None) auto

subsection \<open>Numbers\<close>

lemma parse_nat_acc_append:
  "parse_nat_acc (s @ t) acc =
     (case parse_nat_acc s acc of None \<Rightarrow> None | Some a \<Rightarrow> parse_nat_acc t a)"
  by (induction s arbitrary: acc) (auto split: option.splits)

lemma parse_nat_acc_str_nat: "parse_nat_acc (str_nat n) 0 = Some n"
proof (induction n rule: str_nat.induct)
  case (1 n)
  show ?case
  proof (cases "n < 10")
    case True
    then show ?thesis
      by (simp del: index_of.simps add: str_nat.simps[of n] index_of_digit)
  next
    case False
    have "n mod 10 < 10" by simp
    then have d: "index_of (digit_char (n mod 10)) ''0123456789'' = Some (n mod 10)"
      by (rule index_of_digit)
    have "parse_nat_acc (str_nat n) 0
            = parse_nat_acc [digit_char (n mod 10)] (n div 10)"
      using False "1.IH" by (simp add: str_nat.simps[of n] parse_nat_acc_append)
    also have "\<dots> = Some (n div 10 * 10 + n mod 10)"
      using d by (simp del: index_of.simps)
    finally show ?thesis by simp
  qed
qed

lemma str_nat_not_empty: "str_nat n \<noteq> []"
  by (simp add: str_nat.simps[of n])

lemma str_nat_digits: "set (str_nat n) \<subseteq> set ''0123456789''"
proof (induction n rule: str_nat.induct)
  case (1 n)
  show ?case
  proof (cases "n < 10")
    case True
    then show ?thesis
      using digit_char_in[of n] by (simp add: str_nat.simps[of n])
  next
    case False
    have "digit_char (n mod 10) \<in> set ''0123456789''"
      by (rule digit_char_in) simp
    with False "1.IH" show ?thesis
      by (simp add: str_nat.simps[of n])
  qed
qed

lemma parse_nat_str_nat: "parse_nat (str_nat n) = Some n"
  by (simp add: parse_nat_def str_nat_not_empty parse_nat_acc_str_nat)

subsection \<open>Ranks and placements\<close>

lemma rank_digit_in:
  assumes "1 \<le> k" "k \<le> 8"
  shows "digit_char k \<in> set ''12345678''"
proof -
  have "digit_char k = ''12345678'' ! (k - 1)"
    using assms by (simp add: digit_char_def nth_Cons')
  moreover have "''12345678'' ! (k - 1) \<in> set ''12345678''"
    using assms by (intro nth_mem) simp
  ultimately show ?thesis by simp
qed

lemma parse_rank_piece:
  "parse_rank (piece_symbol pc # rest) prev
     = map_option (Cons (Some pc)) (parse_rank rest False)"
  by (simp del: index_of.simps add: piece_symbol_no_digit symbol_piece_symbol)

lemma parse_rank_digit:
  assumes "1 \<le> k" "k \<le> 8"
  shows "parse_rank (digit_char k # rest) False
           = map_option (\<lambda>r. replicate k None @ r) (parse_rank rest True)"
proof -
  have "Suc (k - 1) = k" using assms by simp
  then show ?thesis
    using index_of_rank_digit[OF assms] by (simp del: index_of.simps replicate.simps)
qed

lemma parse_show_rank:
  "k + length xs \<le> 8 \<Longrightarrow> parse_rank (show_rank xs k) False = Some (replicate k None @ xs)"
proof (induction xs k rule: show_rank.induct)
  case (1 k)
  show ?case
  proof (cases "k = 0")
    case True
    then show ?thesis by simp
  next
    case False
    with 1 have "1 \<le> k" "k \<le> 8" by simp_all
    from parse_rank_digit[OF this, of "[]"] False show ?thesis by simp
  qed
next
  case (2 xs k)
  then have "parse_rank (show_rank xs (Suc k)) False = Some (replicate (Suc k) None @ xs)"
    by simp
  then show ?case by (simp add: replicate_app_Cons_same)
next
  case (3 pc xs k)
  then have IH: "parse_rank (show_rank xs 0) False = Some xs" by simp
  show ?case
  proof (cases "k = 0")
    case True
    then have "show_rank (Some pc # xs) k = piece_symbol pc # show_rank xs 0"
      by simp
    with True show ?thesis
      by (simp only: parse_rank_piece IH) simp
  next
    case False
    with 3 have k: "1 \<le> k" "k \<le> 8" by simp_all
    have "show_rank (Some pc # xs) k = digit_char k # piece_symbol pc # show_rank xs 0"
      using False by simp
    then show ?thesis
      by (simp only: parse_rank_digit[OF k] parse_rank_piece IH) simp
  qed
qed

lemma rank_digit_no_sep:
  assumes "1 \<le> k" "k \<le> 8"
  shows "digit_char k \<noteq> CHR ''/'' \<and> digit_char k \<noteq> CHR '' ''"
  using rank_digit_in[OF assms] by auto

lemma piece_symbol_no_sep: "piece_symbol pc \<noteq> CHR ''/'' \<and> piece_symbol pc \<noteq> CHR '' ''"
  using piece_symbol_letter[of pc] by auto

lemma show_rank_chars:
  "k + length xs \<le> 8 \<Longrightarrow>
     CHR ''/'' \<notin> set (show_rank xs k) \<and> CHR '' '' \<notin> set (show_rank xs k)"
proof (induction xs k rule: show_rank.induct)
  case (1 k)
  show ?case
  proof (cases "k = 0")
    case True
    then show ?thesis by simp
  next
    case False
    with 1 have "1 \<le> k" "k \<le> 8" by simp_all
    from rank_digit_no_sep[OF this] False show ?thesis by auto
  qed
next
  case (2 xs k)
  then show ?case by simp
next
  case (3 pc xs k)
  then have IH: "CHR ''/'' \<notin> set (show_rank xs 0) \<and> CHR '' '' \<notin> set (show_rank xs 0)"
    by simp
  show ?case
  proof (cases "k = 0")
    case True
    with IH piece_symbol_no_sep[of pc] show ?thesis by auto
  next
    case False
    with 3 have "1 \<le> k" "k \<le> 8" by simp_all
    from rank_digit_no_sep[OF this] False IH piece_symbol_no_sep[of pc] show ?thesis by auto
  qed
qed

lemma split_on_none: "c \<notin> set w \<Longrightarrow> split_on c w = [w]"
  by (induction w) auto

lemma split_on_append: "c \<notin> set w \<Longrightarrow> split_on c (w @ c # rest) = w # split_on c rest"
  by (induction w) auto

lemma split_on_join:
  "ws \<noteq> [] \<Longrightarrow> \<forall>w \<in> set ws. c \<notin> set w \<Longrightarrow> split_on c (join_with c ws) = ws"
proof (induction c ws rule: join_with.induct)
  case (1 c)
  then show ?case by simp
next
  case (2 c w)
  then show ?case by (simp add: split_on_none)
next
  case (3 c w v ws)
  then show ?case by (simp add: split_on_append)
qed

lemma those_map_Some: "\<forall>x \<in> set xs. f x = Some (g x) \<Longrightarrow> those (map f xs) = Some (map g xs)"
  by (induction xs) auto

lemma parse_board_fen:
  assumes "shaped rs"
  shows "parse_board (board_fen rs) = Some rs"
proof -
  let ?shown = "map (\<lambda>row. show_rank row 0) (rev rs)"
  have len: "length rs = 8" and rows: "\<And>row. row \<in> set rs \<Longrightarrow> length row = 8"
    using assms by (auto simp: shaped_def list_all_iff)
  have chars: "CHR ''/'' \<notin> set (show_rank row 0)" if "row \<in> set rs" for row
    using show_rank_chars[of 0 row] rows[OF that] by simp
  have "split_on (CHR ''/'') (join_with (CHR ''/'') ?shown) = ?shown"
    using len chars by (intro split_on_join) auto
  moreover have "those (map (\<lambda>r. parse_rank r False) ?shown) = Some (map (\<lambda>row. row) (rev rs))"
    unfolding map_map
    by (rule those_map_Some) (use rows parse_show_rank[of 0] in auto)
  moreover have "list_all (\<lambda>r. length r = 8) (rev rs)"
    using rows by (simp add: list_all_iff)
  ultimately show ?thesis
    using len by (simp add: parse_board_def board_fen_def)
qed

lemma set_join_with: "set (join_with c ws) \<subseteq> insert c (\<Union> (set ` set ws))"
  by (induction c ws rule: join_with.induct) auto

lemma board_fen_chars:
  assumes "shaped rs"
  shows "CHR '' '' \<notin> set (board_fen rs)"
proof
  assume "CHR '' '' \<in> set (board_fen rs)"
  with set_join_with[of "CHR ''/''" "map (\<lambda>row. show_rank row 0) (rev rs)"]
  obtain row where "row \<in> set rs" "CHR '' '' \<in> set (show_rank row 0)"
    unfolding board_fen_def by auto
  moreover from this assms have "length row = 8" by (auto simp: shaped_def list_all_iff)
  ultimately show False using show_rank_chars[of 0 row] by simp
qed

lemma board_fen_not_empty: "shaped rs \<Longrightarrow> board_fen rs \<noteq> []"
proof
  assume a: "shaped rs" and e: "board_fen rs = []"
  from parse_board_fen[OF a] e have "parse_board [] = Some rs" by simp
  then show False by (simp add: parse_board_def)
qed

lemma parse_castling_fen: "parse_castling (castling_fen cr) = Some cr"
proof -
  obtain wk wq bk bq where cr: "cr = (wk, wq, bk, bq)" by (cases cr) auto
  show ?thesis unfolding cr
    by (cases wk; cases wq; cases bk; cases bq)
      (simp_all add: parse_castling_def castling_fen_def)
qed

lemma castling_fen_chars: "castling_fen cr \<noteq> [] \<and> CHR '' '' \<notin> set (castling_fen cr)"
proof -
  obtain wk wq bk bq where cr: "cr = (wk, wq, bk, bq)" by (cases cr) auto
  show ?thesis unfolding cr by (simp add: castling_fen_def)
qed

subsection \<open>Positions\<close>

lemma square_name_chars:
  assumes "on_board sq"
  shows "square_name sq \<noteq> [] \<and> CHR '' '' \<notin> set (square_name sq) \<and> square_name sq \<noteq> ''-''"
proof -
  from assms have f: "fst sq < length ''abcdefgh''" and r: "snd sq < length ''12345678''"
    by (simp_all add: on_board_def)
  from nth_mem[OF f] nth_mem[OF r] have "''abcdefgh'' ! fst sq \<noteq> CHR '' ''" "''12345678'' ! snd sq \<noteq> CHR '' ''"
    by auto
  then show ?thesis by (simp add: square_name_def)
qed

lemma str_nat_no_space: "CHR '' '' \<notin> set (str_nat n)"
  using str_nat_digits[of n] by auto

lemma filter_split_join:
  assumes "ws \<noteq> []" "\<forall>w \<in> set ws. w \<noteq> [] \<and> c \<notin> set w"
  shows "filter (\<lambda>w. w \<noteq> []) (split_on c (join_with c ws)) = ws"
proof -
  have "split_on c (join_with c ws) = ws"
    using assms by (intro split_on_join) auto
  then show ?thesis using assms(2) by simp
qed

lemma has_legal_en_passant_on_board:
  "has_legal_en_passant rs c (Some sq) \<Longrightarrow> on_board sq"
  by (simp add: has_legal_en_passant_def split: if_splits)

lemma norm_ep_on_board:
  assumes "norm p = p" "ep_square p = Some sq"
  shows "on_board sq"
proof -
  have "ep_square (norm p) = Some sq" using assms by simp
  then have "has_legal_en_passant (ranks p) (side p) (ep_square p)"
    by (simp add: norm_def split: if_splits)
  then show ?thesis using assms(2) has_legal_en_passant_on_board by simp
qed

lemma six_fields:
  assumes "P a" "P b" "P c" "P d" "P e" "P f"
  shows "\<forall>w \<in> set [a, b, c, d, e, f]. P w"
  using assms by simp

lemma parse_position_fields:
  assumes fields:
      "filter (\<lambda>w. w \<noteq> []) (split_on (CHR '' '') s)
         = [bp, if c then ''w'' else ''b'', cf,
            case ep of None \<Rightarrow> ''-'' | Some sq \<Rightarrow> square_name sq, hf, ff]"
    and parsed: "parse_board bp = Some rs" "parse_castling cf = Some cr"
      "parse_nat hf = Some hm" "parse_nat ff = Some fm"
    and ep: "\<And>sq. ep = Some sq \<Longrightarrow> on_board sq"
  shows "parse_position s
           = Some (norm \<lparr>ranks = rs, side = c, castling = cr, ep_square = ep,
                         halfmoves = hm, fullmoves = max fm 1\<rparr>)"
proof (cases ep)
  case None
  show ?thesis
    unfolding parse_position_def fields None
    by (cases c) (simp_all add: parsed Let_def)
next
  case (Some sq)
  from ep[OF Some] have ob: "on_board sq" .
  from square_name_chars[OF ob] have ne: "square_name sq \<noteq> ''-''" by simp
  show ?thesis
    unfolding parse_position_def fields Some
    by (cases c) (simp_all add: parsed Let_def ne parse_square_name[OF ob])
qed

lemma parse_position_fen:
  assumes wf: "wf_position p"
  shows "parse_position (position_fen p) = Some p"
proof -
  from wf have sh: "shaped (ranks p)" and n: "norm p = p" and fm: "1 \<le> fullmoves p"
    by (simp_all add: wf_position_def)
  let ?epf = "case ep_square p of None \<Rightarrow> ''-'' | Some sq \<Rightarrow> square_name sq"
  let ?sf = "if side p then ''w'' else ''b''"
  let ?ok = "\<lambda>w. w \<noteq> [] \<and> CHR '' '' \<notin> set w"
  have epf_ok: "?ok ?epf"
  proof (cases "ep_square p")
    case None
    then show ?thesis by simp
  next
    case (Some sq)
    from norm_ep_on_board[OF n Some] square_name_chars[of sq] Some show ?thesis
      by simp
  qed
  have sf_ok: "?ok ?sf" by simp
  have b_ok: "?ok (board_fen (ranks p))"
    using board_fen_not_empty[OF sh] board_fen_chars[OF sh] by (rule conjI)
  have c_ok: "?ok (castling_fen (castling p))" by (rule castling_fen_chars)
  have n_ok: "?ok (str_nat k)" for k
    using str_nat_not_empty str_nat_no_space by (rule conjI)
  have fields:
    "filter (\<lambda>w. w \<noteq> []) (split_on (CHR '' '') (position_fen p))
       = [board_fen (ranks p), ?sf, castling_fen (castling p), ?epf,
          str_nat (halfmoves p), str_nat (fullmoves p)]"
    unfolding position_fen_def
  proof (rule filter_split_join)
    show "[board_fen (ranks p), ?sf, castling_fen (castling p), ?epf,
           str_nat (halfmoves p), str_nat (fullmoves p)] \<noteq> []"
      by (rule list.distinct(2))
    show "\<forall>w \<in> set [board_fen (ranks p), ?sf, castling_fen (castling p), ?epf,
             str_nat (halfmoves p), str_nat (fullmoves p)]. ?ok w"
      using b_ok sf_ok c_ok epf_ok n_ok n_ok by (rule six_fields)
  qed
  have rec:
    "norm \<lparr>ranks = ranks p, side = side p, castling = castling p, ep_square = ep_square p,
           halfmoves = halfmoves p, fullmoves = max (fullmoves p) 1\<rparr> = p"
  proof -
    have "\<lparr>ranks = ranks p, side = side p, castling = castling p, ep_square = ep_square p,
           halfmoves = halfmoves p, fullmoves = fullmoves p\<rparr> = p"
      by (cases p) simp
    with n max_absorb1[OF fm] show ?thesis by (simp only:)
  qed
  have "parse_position (position_fen p)
          = Some (norm \<lparr>ranks = ranks p, side = side p, castling = castling p,
                ep_square = ep_square p, halfmoves = halfmoves p,
                fullmoves = max (fullmoves p) 1\<rparr>)"
    using fields parse_board_fen[OF sh] parse_castling_fen parse_nat_str_nat
      parse_nat_str_nat norm_ep_on_board[OF n]
    by (rule parse_position_fields)
  then show ?thesis by (simp only: rec)
qed

lemma position_fen_inj:
  assumes "wf_position p" "wf_position q" "position_fen p = position_fen q"
  shows "p = q"
proof -
  have "Some p = parse_position (position_fen p)"
    using parse_position_fen[OF assms(1)] by (rule sym)
  also have "\<dots> = parse_position (position_fen q)" by (simp only: assms(3))
  also have "\<dots> = Some q" by (rule parse_position_fen[OF assms(2)])
  finally show ?thesis by (simp only: option.inject)
qed

subsection \<open>Moves keep positions well-formed\<close>

lemma shaped_put: "shaped rs \<Longrightarrow> shaped (put rs sq x)"
proof -
  assume a: "shaped rs"
  show ?thesis
  proof (cases "snd sq < length rs")
    case True
    then have "rs ! snd sq \<in> set rs" by simp
    with a have "length ((rs ! snd sq)[fst sq := x]) = 8"
      by (simp add: shaped_def list_all_iff)
    moreover have "set (rs[snd sq := (rs ! snd sq)[fst sq := x]])
                     \<subseteq> insert ((rs ! snd sq)[fst sq := x]) (set rs)"
      by (rule set_update_subset_insert)
    ultimately show ?thesis using a
      unfolding shaped_def put_def list_all_iff by auto
  next
    case False
    then show ?thesis using a by (simp add: put_def list_update_beyond)
  qed
qed

lemma shaped_moved_ranks: "shaped rs \<Longrightarrow> shaped (moved_ranks rs c ep a t pr)"
  by (simp add: moved_ranks_def Let_def shaped_put split: option.splits)

lemma shaped_raw_push: "shaped (ranks p) \<Longrightarrow> shaped (ranks (raw_push p m))"
  by (cases m) (simp_all add: raw_push_def Let_def shaped_put shaped_moved_ranks)

lemma fullmoves_raw_push: "1 \<le> fullmoves p \<Longrightarrow> 1 \<le> fullmoves (raw_push p m)"
  by (cases m) (simp_all add: raw_push_def Let_def)

lemma clean_castling_twice: "clean_castling rs (clean_castling rs cr) = clean_castling rs cr"
proof -
  obtain wk wq bk bq where cr: "cr = (wk, wq, bk, bq)" by (cases cr) auto
  show ?thesis unfolding cr by (simp add: clean_castling_def)
qed

lemma norm_norm: "norm (norm p) = norm p"
  by (simp add: norm_def clean_castling_twice has_legal_en_passant_def)

lemma wf_norm: "shaped (ranks p) \<Longrightarrow> 1 \<le> fullmoves p \<Longrightarrow> wf_position (norm p)"
  unfolding wf_position_def norm_norm by (simp add: norm_def)

lemma wf_pc_push: "wf_board b \<Longrightarrow> wf_board (pc_push b m)"
  unfolding wf_board_def wf_position_def
  using wf_norm[of "raw_push (pos b) m"] shaped_raw_push[of "pos b" m]
    fullmoves_raw_push[of "pos b" m]
  by (simp add: pc_push_def wf_position_def)

lemma shaped_start: "shaped start_ranks"
  by code_simp

lemma wf_pc_start: "wf_board pc_start"
proof -
  have "clean_castling start_ranks (True, True, True, True) = (True, True, True, True)"
    by code_simp
  then show ?thesis
    by (simp add: wf_board_def wf_position_def pc_start_def shaped_start norm_def
        has_legal_en_passant_def)
qed

subsection \<open>The contract\<close>

lemma pychess_sel:
  "Board_start pychess = pc_start" "Board_fen pychess = pc_Board" "fen pychess = pc_fen"
  "is_legal pychess = (\<lambda>b. legal (pos b))" "push pychess = pc_push"
  "from_uci pychess = pc_from_uci" "uci pychess = pc_uci"
  by (simp_all add: pychess_def)

lemma pc_Board_fen:
  assumes "wf_board b" "pc_Board (pc_fen b) = Some b'"
  shows "wf_board b' \<and> pc_fen b' = pc_fen b"
proof -
  from assms(1) have "parse_position (position_fen (pos b)) = Some (pos b)"
    by (simp add: wf_board_def parse_position_fen)
  with assms(2) have "pos b' = pos b" by (auto simp: pc_Board_def pc_fen_def)
  with assms(1) show ?thesis by (simp add: wf_board_def pc_fen_def)
qed

lemma pc_fen_same:
  assumes "wf_board b" "wf_board b'" "pc_fen b = pc_fen b'"
  shows "pos b = pos b'"
  using assms position_fen_inj[of "pos b" "pos b'"] by (simp add: wf_board_def pc_fen_def)

lemma pychess_contract_on: "lib_contract_on pychess wf_board"
  unfolding lib_contract_on_def pychess_sel
proof (intro conjI allI impI)
  show "wf_board pc_start" by (rule wf_pc_start)
next
  fix b m assume "wf_board b \<and> legal (pos b) m"
  then show "wf_board (pc_push b m)" by (simp add: wf_pc_push)
next
  fix b b' assume a: "wf_board b \<and> pc_Board (pc_fen b) = Some b'"
  then show "wf_board b'" using pc_Board_fen[of b b'] by simp
  from a show "pc_fen b' = pc_fen b" using pc_Board_fen[of b b'] by simp
next
  fix b b' m
  assume a: "wf_board b \<and> wf_board b' \<and> pc_fen b = pc_fen b' \<and> legal (pos b) m"
  then have same: "pos b = pos b'" using pc_fen_same[of b b'] by simp
  from a same show "legal (pos b') m" by simp
  from same show "pc_fen (pc_push b m) = pc_fen (pc_push b' m)"
    by (simp add: pc_fen_def pc_push_def)
qed

lemma pychess_contract: "lib_contract pychess"
  unfolding lib_contract_def using pychess_contract_on by blast

lemma find_Some_D: "find P xs = Some x \<Longrightarrow> P x \<and> x \<in> set xs"
  by (induction xs) (auto split: if_splits)

lemma book_moves_uci: "list_all (\<lambda>m. pc_from_uci (pc_uci m) = Some m) book_moves"
  by code_simp

lemma book_engine_sound: "engine_sound pychess book_engine"
  unfolding engine_sound_def pychess_sel
proof (intro allI impI)
  fix b m assume "book_engine b = BestMove m"
  then have "find (legal (pos b)) book_moves = Some m"
    by (simp add: book_engine_def split: option.splits)
  from find_Some_D[OF this] book_moves_uci
  show "legal (pos b) m \<and> pc_from_uci (pc_uci m) = Some m"
    by (simp add: list_all_iff)
qed

lemma db_run_sessions:
  "map move_history (sessions db_run) = [[''e2e4'', ''e7e5'', ''f1c4'']]"
  "map current_fen (sessions db_run)
     = [''rnbqkbnr/pppp1ppp/8/4p3/2B1P3/8/PPPP1PPP/RNBQK1NR b KQkq - 1 2'']"
  by code_simp+

lemma db_run_reachable: "reachable pychess db_run"
proof -
  have "sessions db_empty = []" by (simp add: db_empty_def)
  then have "reachable pychess db_empty" by (rule reachable.no_sessions)
  then have "reachable pychess db_bot" unfolding db_bot_def by (rule reachable.created_api)
  then have "reachable pychess (fst (make_move pychess book_engine 101 db_bot 1 ''e2e4''))"
    using book_engine_sound by (rule reachable.moved)
  then have "reachable pychess
               (fst (make_move pychess book_engine 102
                  (fst (make_move pychess book_engine 101 db_bot 1 ''e2e4'')) 1 ''f1c4''))"
    using book_engine_sound by (rule reachable.moved)
  then show ?thesis unfolding db_run_def by (rule reachable.undone)
qed

text \<open>
  The theorem at the model of the library, which keeps the contract, and the store reached
  by two moves answered by the book engine and one undo: its one session has the log
  \<open>e2e4 e7e5 f1c4\<close> and is consistent.
\<close>

theorem reachable_sessions_consistent_witness:
  "lib_contract pychess \<and> reachable pychess db_run
   \<and> map move_history (sessions db_run) = [[''e2e4'', ''e7e5'', ''f1c4'']]
   \<and> list_all (consistent pychess) (sessions db_run)"
  using reachable_sessions_consistent[OF pychess_contract db_run_reachable]
    pychess_contract db_run_reachable db_run_sessions(1)
  by simp

end
